theory Spec2Isabelle
  imports Main "HOL-Library.Word" "HOL-Library.Sublist"
begin

unbundle bit_operations_syntax

section \<open>Backend: errors, requests and the security manager's state\<close>

text \<open>
  The three error classes of \<^verbatim>\<open>backend/types/index.ts\<close>. A \<^verbatim>\<open>SecurityError\<close> carries a
  message and a code, the other two a message only. \<open>OtherError\<close> stands for any other
  JavaScript exception (a \<^verbatim>\<open>TypeError\<close>, a \<^verbatim>\<open>DOMException\<close>, a plain \<^verbatim>\<open>Error\<close>).
  A function that throws returns \<open>Inl\<close> of the error.
\<close>

datatype js_error =
    SecurityError string string
  | AuthenticationError string
  | ValidationError string
  | OtherError string

text \<open>
  A parsed JSON body; the validation code only passes it through.
\<close>

datatype json = JNull | JBool bool | JNum int | JStr string | JArr "json list" | JObj "(string \<times> json) list"

text \<open>
  \<^verbatim>\<open>APIRequest\<close>. Header names and values are byte strings, which is what \<open>string\<close> is.
  The field \<open>http_method\<close> is \<^verbatim>\<open>method\<close> (a reserved word here).
  \<open>timestamp\<close> is the result of \<^verbatim>\<open>parseInt\<close>: \<open>None\<close> is \<^verbatim>\<open>NaN\<close>.
\<close>

record APIRequest =
  http_method :: string
  path :: string
  body :: "json option"
  headers :: "string \<rightharpoonup> string"
  timestamp :: "int option"
  nonce :: string
  signature :: string

text \<open>\<^verbatim>\<open>LoginAttempt\<close>; the \<^verbatim>\<open>Date\<close> is kept as its \<^verbatim>\<open>getTime()\<close>, epoch milliseconds.\<close>

record LoginAttempt =
  username :: string
  attempt_timestamp :: int
  ip :: string
  fingerprint :: string
  success :: bool

text \<open>The two static maps of \<^verbatim>\<open>SecurityManager\<close>.\<close>

record security_state =
  rateLimitMap :: "string \<rightharpoonup> int list"
  loginAttempts :: "string \<rightharpoonup> LoginAttempt list"

text \<open>\<^verbatim>\<open>SECURITY_CONSTANTS\<close>, the entries the security manager reads.\<close>

definition RATE_LIMIT_WINDOW :: int where
  "RATE_LIMIT_WINDOW = 60 * 1000"

definition RATE_LIMIT_MAX_REQUESTS :: nat where
  "RATE_LIMIT_MAX_REQUESTS = 100"

definition MAX_LOGIN_ATTEMPTS :: nat where
  "MAX_LOGIN_ATTEMPTS = 3"

definition LOCKOUT_BASE_DURATION :: int where
  "LOCKOUT_BASE_DURATION = 24 * 60 * 60 * 1000"

text \<open>
  \<^verbatim>\<open>headers[name] || 'unknown'\<close>: a missing header and an empty one both give the default.
\<close>

definition header_or :: "APIRequest \<Rightarrow> string \<Rightarrow> string \<Rightarrow> string" where
  "header_or request name dflt =
     (case headers request name of
        None \<Rightarrow> dflt
      | Some v \<Rightarrow> if v = [] then dflt else v)"

definition getClientKey :: "APIRequest \<Rightarrow> string" where
  "getClientKey request =
     (let ip = header_or request ''x-real-ip'' (header_or request ''x-forwarded-for'' ''unknown'');
          userAgent = header_or request ''user-agent'' ''unknown'';
          fingerprint = header_or request ''x-fingerprint'' ''unknown''
      in ip @ ''|'' @ userAgent @ ''|'' @ fingerprint)"

subsection \<open>Rate limiting\<close>

text \<open>
  \<^verbatim>\<open>validateRateLimit\<close>. \<open>now\<close> is the value of \<^verbatim>\<open>Date.now()\<close> read by the call. The
  function returns the outcome together with the state it leaves: the filtered array is
  a local copy, and the map is written only after the limit check has passed.
\<close>

definition validateRateLimit ::
  "APIRequest \<Rightarrow> int \<Rightarrow> security_state \<Rightarrow> (js_error + unit) \<times> security_state" where
  "validateRateLimit request now st =
     (let clientKey = getClientKey request;
          requests = (case rateLimitMap st clientKey of None \<Rightarrow> [] | Some r \<Rightarrow> r);
          requests = filter (\<lambda>timestamp. now - timestamp < RATE_LIMIT_WINDOW) requests
      in if length requests \<ge> RATE_LIMIT_MAX_REQUESTS
         then (Inl (SecurityError ''Rate limit exceeded'' ''RATE_LIMIT_EXCEEDED''), st)
         else (Inr (),
               st\<lparr>rateLimitMap := (rateLimitMap st)(clientKey \<mapsto> requests @ [now])\<rparr>))"

text \<open>The array on record for the request's client: \<^verbatim>\<open>rateLimitMap.get(clientKey) || []\<close>.\<close>

definition recorded :: "security_state \<Rightarrow> APIRequest \<Rightarrow> int list" where
  "recorded st request =
     (case rateLimitMap st (getClientKey request) of None \<Rightarrow> [] | Some r \<Rightarrow> r)"


section \<open>Platform functions the backend calls\<close>

subsection \<open>Base64: \<^verbatim>\<open>btoa\<close> and \<^verbatim>\<open>atob\<close>\<close>

text \<open>
  The base64 alphabet: \<open>A\<close> to \<open>Z\<close>, \<open>a\<close> to \<open>z\<close>, \<open>0\<close> to \<open>9\<close>, \<open>+\<close> and \<open>/\<close>,
  as positions 0 to 63.
\<close>

definition b64_char :: "nat \<Rightarrow> char" where
  "b64_char n =
     (if n < 26 then char_of (65 + n)
      else if n < 52 then char_of (71 + n)
      else if n < 62 then char_of (n - 4)
      else if n = 62 then CHR ''+'' else CHR ''/'')"

definition b64_value :: "char \<Rightarrow> nat option" where
  "b64_value c =
     (let k = (of_char c :: nat)
      in if 65 \<le> k \<and> k \<le> 90 then Some (k - 65)
         else if 97 \<le> k \<and> k \<le> 122 then Some (k - 71)
         else if 48 \<le> k \<and> k \<le> 57 then Some (k + 4)
         else if c = CHR ''+'' then Some 62
         else if c = CHR ''/'' then Some 63
         else None)"

text \<open>Three bytes give four characters; one or two bytes left over are padded with \<open>=\<close>.\<close>

fun b64_encode :: "nat list \<Rightarrow> string" where
  "b64_encode [] = []"
| "b64_encode [a] = [b64_char (a div 4), b64_char ((a mod 4) * 16), CHR ''='', CHR ''='']"
| "b64_encode [a, b] =
     [b64_char (a div 4), b64_char ((a mod 4) * 16 + b div 16), b64_char ((b mod 16) * 4),
      CHR ''='']"
| "b64_encode (a # b # c # rest) =
     [b64_char (a div 4), b64_char ((a mod 4) * 16 + b div 16),
      b64_char ((b mod 16) * 4 + c div 64), b64_char (c mod 64)] @ b64_encode rest"

text \<open>
  \<^verbatim>\<open>btoa\<close>. Its argument is a binary string, one character per byte. A JavaScript
  string with a code unit above \<open>0xFF\<close> makes \<^verbatim>\<open>btoa\<close> throw; \<open>string\<close> has no such
  character, and the callers modelled here build the argument from bytes.
\<close>

definition btoa :: "string \<Rightarrow> string" where
  "btoa binary = b64_encode (map of_char binary)"

text \<open>
  Four 6-bit values give three bytes. Of two values left over the low 4 bits are
  dropped, of three the low 2 bits.
\<close>

fun b64_decode :: "nat list \<Rightarrow> nat list" where
  "b64_decode (a # b # c # d # rest) =
     [a * 4 + b div 16, (b mod 16) * 16 + c div 4, (c mod 4) * 64 + d] @ b64_decode rest"
| "b64_decode [a, b, c] = [a * 4 + b div 16, (b mod 16) * 16 + c div 4]"
| "b64_decode [a, b] = [a * 4 + b div 16]"
| "b64_decode _ = []"

definition is_ascii_whitespace :: "char \<Rightarrow> bool" where
  "is_ascii_whitespace c \<longleftrightarrow> (of_char c :: nat) \<in> {9, 10, 12, 13, 32}"

text \<open>
  When the length is a multiple of 4, one or two \<open>=\<close> at the end are removed.
\<close>

definition strip_padding :: "string \<Rightarrow> string" where
  "strip_padding d =
     (if length d mod 4 = 0 \<and> d \<noteq> [] \<and> last d = CHR ''=''
      then (if butlast d \<noteq> [] \<and> last (butlast d) = CHR ''='' then butlast (butlast d)
            else butlast d)
      else d)"

text \<open>
  \<^verbatim>\<open>atob\<close>, the forgiving base64 decoder of the HTML standard: ASCII whitespace is
  removed, then the padding; a length of 1 modulo 4 or a character outside the alphabet
  makes it throw \<^verbatim>\<open>InvalidCharacterError\<close>.
\<close>

definition atob :: "string \<Rightarrow> js_error + string" where
  "atob data =
     (let d = strip_padding (filter (\<lambda>c. \<not> is_ascii_whitespace c) data)
      in if length d mod 4 = 1 then Inl (OtherError ''InvalidCharacterError'')
         else if list_ex (\<lambda>c. b64_value c = None) d then Inl (OtherError ''InvalidCharacterError'')
         else Inr (map char_of (b64_decode (map (\<lambda>c. the (b64_value c)) d))))"

subsection \<open>\<^verbatim>\<open>parseInt\<close>, \<^verbatim>\<open>toLowerCase\<close>, \<^verbatim>\<open>includes\<close>\<close>

text \<open>
  White space that \<^verbatim>\<open>parseInt\<close> skips, among the characters a header value can hold.
\<close>

definition is_js_whitespace :: "char \<Rightarrow> bool" where
  "is_js_whitespace c \<longleftrightarrow> (of_char c :: nat) \<in> {9, 10, 11, 12, 13, 32, 160}"

definition digit_value :: "char \<Rightarrow> nat option" where
  "digit_value c =
     (let k = (of_char c :: nat)
      in if 48 \<le> k \<and> k \<le> 57 then Some (k - 48)
         else if 97 \<le> k \<and> k \<le> 122 then Some (k - 87)
         else if 65 \<le> k \<and> k \<le> 90 then Some (k - 55)
         else None)"

definition is_digit :: "nat \<Rightarrow> char \<Rightarrow> bool" where
  "is_digit radix c = (case digit_value c of None \<Rightarrow> False | Some d \<Rightarrow> d < radix)"

definition digits_value :: "nat \<Rightarrow> string \<Rightarrow> int" where
  "digits_value radix ds = foldl (\<lambda>acc c. acc * int radix + int (the (digit_value c))) 0 ds"

text \<open>
  \<^verbatim>\<open>parseInt(s)\<close> with no radix: leading white space, a sign, a \<open>0x\<close> prefix for base 16,
  then the longest run of digits; \<open>None\<close> is \<^verbatim>\<open>NaN\<close>. The value is exact here, where
  JavaScript rounds to a double: the two agree below \<open>2^53\<close>, and the one comparison
  made with the result, against a clock reading, comes out the same either way.
\<close>

definition parseInt :: "string \<Rightarrow> int option" where
  "parseInt s =
     (let s1 = dropWhile is_js_whitespace s;
          sign = (if s1 \<noteq> [] \<and> hd s1 = CHR ''-'' then - 1 else 1 :: int);
          s2 = (if s1 \<noteq> [] \<and> (hd s1 = CHR ''-'' \<or> hd s1 = CHR ''+'') then tl s1 else s1);
          hex = (take 2 s2 = ''0x'' \<or> take 2 s2 = ''0X'');
          radix = (if hex then 16 else 10);
          s3 = (if hex then drop 2 s2 else s2);
          ds = takeWhile (is_digit radix) s3
      in if ds = [] then None else Some (sign * digits_value radix ds))"

text \<open>\<^verbatim>\<open>toLowerCase\<close> on a header name, which is a token of ASCII characters.\<close>

definition toLowerCase_ascii :: "string \<Rightarrow> string" where
  "toLowerCase_ascii s =
     map (\<lambda>c. if 65 \<le> (of_char c :: nat) \<and> (of_char c :: nat) \<le> 90
               then char_of ((of_char c :: nat) + 32) else c) s"

text \<open>\<^verbatim>\<open>s.includes(p)\<close>: \<open>p\<close> occurs in \<open>s\<close> as a contiguous run.\<close>

definition includes_str :: "string \<Rightarrow> string \<Rightarrow> bool" where
  "includes_str s p = list_ex (\<lambda>t. prefix p t) (suffixes s)"

section \<open>Backend: the request handler's validation\<close>

text \<open>
  The Fetch \<^verbatim>\<open>Request\<close> as \<^verbatim>\<open>parseAndValidateRequest\<close> reads it: the path of its URL, its
  method, its headers as \<^verbatim>\<open>forEach\<close> enumerates them (name and value), whether it has a
  body, and what \<^verbatim>\<open>request.json()\<close> gives (\<open>None\<close> when it rejects).
\<close>

record Request =
  url_pathname :: string
  request_method :: string
  request_headers :: "(string \<times> string) list"
  has_body :: bool
  json_result :: "json option"

text \<open>A header that is absent or empty is falsy.\<close>

definition falsy_header :: "(string \<rightharpoonup> string) \<Rightarrow> string \<Rightarrow> bool" where
  "falsy_header h name = (case h name of None \<Rightarrow> True | Some v \<Rightarrow> v = [])"

definition header_value :: "(string \<rightharpoonup> string) \<Rightarrow> string \<Rightarrow> string" where
  "header_value h name = (case h name of None \<Rightarrow> [] | Some v \<Rightarrow> v)"

definition collect_headers :: "(string \<times> string) list \<Rightarrow> (string \<rightharpoonup> string)" where
  "collect_headers hs = foldl (\<lambda>h (key, value). h(toLowerCase_ascii key \<mapsto> value)) Map.empty hs"

text \<open>
  \<^verbatim>\<open>parseAndValidateRequest\<close>; \<open>now\<close> is its \<^verbatim>\<open>Date.now()\<close>. A \<^verbatim>\<open>NaN\<close> timestamp passes
  the skew check, since every comparison with \<^verbatim>\<open>NaN\<close> is false.
\<close>

definition parseAndValidateRequest :: "Request \<Rightarrow> int \<Rightarrow> js_error + APIRequest" where
  "parseAndValidateRequest request now =
     (let hdrs = collect_headers (request_headers request)
      in if falsy_header hdrs ''content-type'' then Inl (ValidationError ''Missing Content-Type header'')
         else if falsy_header hdrs ''x-timestamp'' then Inl (ValidationError ''Missing timestamp header'')
         else if falsy_header hdrs ''x-nonce'' then Inl (ValidationError ''Missing nonce header'')
         else if falsy_header hdrs ''x-signature'' then Inl (ValidationError ''Missing signature header'')
         else if has_body request \<and> includes_str (header_value hdrs ''content-type'') ''application/json''
                 \<and> json_result request = None
           then Inl (ValidationError ''Invalid JSON body'')
         else
           (let body = (if has_body request
                           \<and> includes_str (header_value hdrs ''content-type'') ''application/json''
                        then json_result request else None);
                timestamp = parseInt (header_value hdrs ''x-timestamp'')
            in if (case timestamp of None \<Rightarrow> False | Some t \<Rightarrow> \<bar>now - t\<bar> > 5 * 60 * 1000)
               then Inl (ValidationError ''Timestamp too old or too far in future'')
               else Inr \<lparr>http_method = request_method request, path = url_pathname request,
                         body = body, headers = hdrs, timestamp = timestamp,
                         nonce = header_value hdrs ''x-nonce'',
                         signature = header_value hdrs ''x-signature''\<rparr>))"

subsection \<open>Signature and session format\<close>

text \<open>
  \<^verbatim>\<open>isValidSignatureFormat\<close>: the signature, with \<open>_\<close> and \<open>-\<close> replaced by \<open>/\<close> and \<open>+\<close>,
  must decode with \<^verbatim>\<open>atob\<close> and must not be empty.
\<close>

definition isValidSignatureFormat :: "string \<Rightarrow> bool" where
  "isValidSignatureFormat sig =
     (case atob (map (\<lambda>c. if c = CHR ''-'' then CHR ''+'' else c)
                  (map (\<lambda>c. if c = CHR ''_'' then CHR ''/'' else c) sig)) of
        Inl e \<Rightarrow> False
      | Inr v \<Rightarrow> length sig > 0)"

text \<open>
  \<^verbatim>\<open>validateSignature\<close>. The signed string is rebuilt and then not used: the HMAC check
  is a comment in the source.
\<close>

definition validateSignature :: "APIRequest \<Rightarrow> js_error + unit" where
  "validateSignature request =
     (if falsy_header (headers request) ''x-signature''
      then Inl (SecurityError ''Missing signature'' ''MISSING_SIGNATURE'')
      else if \<not> isValidSignatureFormat (header_value (headers request) ''x-signature'')
      then Inl (SecurityError ''Invalid signature format'' ''INVALID_SIGNATURE'')
      else Inr ())"

definition is_hex_char :: "char \<Rightarrow> bool" where
  "is_hex_char c \<longleftrightarrow> (case digit_value c of None \<Rightarrow> False | Some d \<Rightarrow> d < 16)"

text \<open>
  \<^verbatim>\<open>isValidSessionToken\<close>: the case-insensitive pattern
  \<^verbatim>\<open>^[0-9a-f]{8}-[0-9a-f]{4}-[1-5][0-9a-f]{3}-[89ab][0-9a-f]{3}-[0-9a-f]{12}$\<close>.
\<close>

definition isValidSessionToken :: "string \<Rightarrow> bool" where
  "isValidSessionToken token \<longleftrightarrow>
     length token = 36
     \<and> list_all is_hex_char (take 8 token)
     \<and> token ! 8 = CHR ''-''
     \<and> list_all is_hex_char (take 4 (drop 9 token))
     \<and> token ! 13 = CHR ''-''
     \<and> token ! 14 \<in> set ''12345''
     \<and> list_all is_hex_char (take 3 (drop 15 token))
     \<and> token ! 18 = CHR ''-''
     \<and> token ! 19 \<in> set ''89abAB''
     \<and> list_all is_hex_char (take 3 (drop 20 token))
     \<and> token ! 23 = CHR ''-''
     \<and> list_all is_hex_char (drop 24 token)"

definition validateSession :: "APIRequest \<Rightarrow> js_error + unit" where
  "validateSession request =
     (if falsy_header (headers request) ''x-session-token''
      then Inl (AuthenticationError ''Missing session token'')
      else if \<not> isValidSessionToken (header_value (headers request) ''x-session-token'')
      then Inl (AuthenticationError ''Invalid session token format'')
      else Inr ())"

definition requiresAuthentication :: "string \<Rightarrow> bool" where
  "requiresAuthentication p \<longleftrightarrow>
     p \<notin> set [''/api/auth/register'', ''/api/auth/login'', ''/api/auth/captcha'', ''/api/health'']"

subsection \<open>Brute-force protection\<close>

text \<open>The login attempts on record for the request's client.\<close>

definition attempts_of :: "security_state \<Rightarrow> APIRequest \<Rightarrow> LoginAttempt list" where
  "attempts_of st request =
     (case loginAttempts st (getClientKey request) of None \<Rightarrow> [] | Some a \<Rightarrow> a)"

text \<open>
  \<^verbatim>\<open>validateBruteForce\<close>; it reads the map and never writes it. \<^verbatim>\<open>Math.pow\<close> and the
  product are exact in doubles while fewer than 20 failures lie in the window; beyond
  that the rounded duration is still at least the base duration, and the comparison
  with \<open>now\<close> comes out as with exact integers, which is what the model computes.
\<close>

definition validateBruteForce :: "APIRequest \<Rightarrow> int \<Rightarrow> security_state \<Rightarrow> js_error + unit" where
  "validateBruteForce request now st =
     (if path request \<noteq> ''/api/auth/login'' then Inr ()
      else
        (let attempts = attempts_of st request;
             attempts = filter (\<lambda>attempt. now - attempt_timestamp attempt < 24 * 60 * 60 * 1000) attempts;
             failedAttempts = filter (\<lambda>attempt. \<not> success attempt) attempts
         in if length failedAttempts \<ge> MAX_LOGIN_ATTEMPTS
            then
              (let lastFailed = last failedAttempts;
                   lockoutDuration = 3 ^ (length failedAttempts - 3) * LOCKOUT_BASE_DURATION;
                   lockoutUntil = attempt_timestamp lastFailed + lockoutDuration
               in if now < lockoutUntil
                  then Inl (AuthenticationError
                         ''Account temporarily locked due to too many failed login attempts'')
                  else Inr ())
            else Inr ()))"

text \<open>
  The two values \<^verbatim>\<open>validateBruteForce\<close> computes on the way: the failed attempts inside
  the 24-hour window at time \<open>now\<close>, and the lockout expiry for a list of failures.
\<close>

definition failedAttempts_at :: "security_state \<Rightarrow> APIRequest \<Rightarrow> int \<Rightarrow> LoginAttempt list" where
  "failedAttempts_at st request now =
     filter (\<lambda>attempt. \<not> success attempt)
       (filter (\<lambda>attempt. now - attempt_timestamp attempt < 24 * 60 * 60 * 1000)
          (attempts_of st request))"

definition lockoutUntil :: "LoginAttempt list \<Rightarrow> int" where
  "lockoutUntil failedAttempts =
     attempt_timestamp (last failedAttempts)
       + 3 ^ (length failedAttempts - 3) * LOCKOUT_BASE_DURATION"

text \<open>\<^verbatim>\<open>recordLoginAttempt\<close>; \<open>now\<close> is the time of its \<^verbatim>\<open>new Date()\<close>.\<close>

definition recordLoginAttempt ::
  "string \<Rightarrow> bool \<Rightarrow> APIRequest \<Rightarrow> int \<Rightarrow> security_state \<Rightarrow> security_state" where
  "recordLoginAttempt user ok request now st =
     (let clientKey = getClientKey request;
          attempt = \<lparr>username = user, attempt_timestamp = now,
                     ip = header_or request ''x-real-ip'' ''unknown'',
                     fingerprint = header_or request ''x-fingerprint'' ''unknown'',
                     success = ok\<rparr>
      in st\<lparr>loginAttempts := (loginAttempts st)(clientKey \<mapsto> attempts_of st request @ [attempt])\<rparr>)"

subsection \<open>The whole validation\<close>

text \<open>
  \<^verbatim>\<open>SecurityManager.validateRequest\<close>: rate limit, signature, brute force, then the
  session on endpoints that need one. Each \<^verbatim>\<open>Date.now()\<close> is a clock reading of its own.
  The rate-limit check has recorded the request by the time a later check throws.
\<close>

definition validateRequest ::
  "APIRequest \<Rightarrow> int \<Rightarrow> int \<Rightarrow> security_state \<Rightarrow> (js_error + unit) \<times> security_state" where
  "validateRequest request now_rate now_brute st =
     (case validateRateLimit request now_rate st of
        (Inl e, st') \<Rightarrow> (Inl e, st')
      | (Inr u, st') \<Rightarrow>
          (case validateSignature request of
             Inl e \<Rightarrow> (Inl e, st')
           | Inr u \<Rightarrow>
               (case validateBruteForce request now_brute st' of
                  Inl e \<Rightarrow> (Inl e, st')
                | Inr u \<Rightarrow>
                    if requiresAuthentication (path request)
                    then (validateSession request, st')
                    else (Inr (), st'))))"

text \<open>
  The first two steps of \<^verbatim>\<open>handleRequest\<close>: parse the request, then validate it. The
  result is the error thrown, or the request handed on to the router.
\<close>

definition validateIncoming ::
  "Request \<Rightarrow> int \<Rightarrow> int \<Rightarrow> int \<Rightarrow> security_state \<Rightarrow> (js_error + APIRequest) \<times> security_state" where
  "validateIncoming request now_parse now_rate now_brute st =
     (case parseAndValidateRequest request now_parse of
        Inl e \<Rightarrow> (Inl e, st)
      | Inr apiRequest \<Rightarrow>
          (case validateRequest apiRequest now_rate now_brute st of
             (Inl e, st') \<Rightarrow> (Inl e, st')
           | (Inr u, st') \<Rightarrow> (Inr apiRequest, st')))"

text \<open>Sample data: an anonymous health check, and a state in which every client has 100 requests on record, all made at time 0.\<close>

definition full_request :: APIRequest where
  "full_request = \<lparr>http_method = ''GET'', path = ''/api/health'', body = None,
     headers = Map.empty, timestamp = Some 0, nonce = ''n'', signature = ''c2ln''\<rparr>"

definition full_state :: security_state where
  "full_state = \<lparr>rateLimitMap = (\<lambda>k. Some (replicate 100 0)), loginAttempts = Map.empty\<rparr>"

definition empty_state :: security_state where
  "empty_state = \<lparr>rateLimitMap = Map.empty, loginAttempts = Map.empty\<rparr>"


text \<open>
  A login request, and the state after failed logins of its client have been recorded at
  the given times, in that order, starting from empty maps.
\<close>

definition brute_request :: APIRequest where
  "brute_request = \<lparr>http_method = ''POST'', path = ''/api/auth/login'', body = None,
     headers = Map.empty, timestamp = Some 0, nonce = ''n'', signature = ''c2ln''\<rparr>"

definition failures_recorded :: "int list \<Rightarrow> security_state" where
  "failures_recorded stamps =
     fold (\<lambda>t. recordLoginAttempt ''u'' False brute_request t) stamps empty_state"

text \<open>
  Two requests to the health endpoint, received around time 1000: one with all four
  required headers, one without \<^verbatim>\<open>x-signature\<close>. \<open>signed_api\<close> is what the first parses to.
\<close>

definition signed_request :: Request where
  "signed_request = \<lparr>url_pathname = ''/api/health'', request_method = ''GET'',
     request_headers = [(''content-type'', ''application/json''), (''x-nonce'', ''bm9uY2U=''),
       (''x-signature'', ''c2ln''), (''x-timestamp'', ''1000'')],
     has_body = False, json_result = None\<rparr>"

definition unsigned_request :: Request where
  "unsigned_request = \<lparr>url_pathname = ''/api/health'', request_method = ''GET'',
     request_headers = [(''content-type'', ''application/json''), (''x-nonce'', ''bm9uY2U=''),
       (''x-timestamp'', ''1000'')],
     has_body = False, json_result = None\<rparr>"

definition signed_api :: APIRequest where
  "signed_api = \<lparr>http_method = ''GET'', path = ''/api/health'', body = None,
     headers = collect_headers (request_headers signed_request), timestamp = Some 1000,
     nonce = ''bm9uY2U='', signature = ''c2ln''\<rparr>"

section \<open>Frontend: \<^verbatim>\<open>CryptoManager\<close>\<close>

subsection \<open>Binary to text and back\<close>

text \<open>
  \<^verbatim>\<open>arrayBufferToBase64\<close> appends \<^verbatim>\<open>String.fromCharCode\<close> of each byte to a binary string
  and calls \<^verbatim>\<open>btoa\<close>. \<^verbatim>\<open>base64ToArrayBuffer\<close> calls \<^verbatim>\<open>atob\<close>, which can throw, and stores
  \<^verbatim>\<open>charCodeAt\<close> of each character in a \<^verbatim>\<open>Uint8Array\<close>.
\<close>

definition arrayBufferToBase64 :: "8 word list \<Rightarrow> string" where
  "arrayBufferToBase64 buffer = btoa (map (\<lambda>b. char_of (unat b)) buffer)"

definition base64ToArrayBuffer :: "string \<Rightarrow> js_error + 8 word list" where
  "base64ToArrayBuffer base64 =
     (case atob base64 of
        Inl e \<Rightarrow> Inl e
      | Inr binaryString \<Rightarrow> Inr (map (\<lambda>c. of_nat (of_char c)) binaryString))"

text \<open>
  For the proof, the encoder's output is split into the characters of the 6-bit values
  and the padding.
\<close>

fun b64_sextets :: "nat list \<Rightarrow> nat list" where
  "b64_sextets [] = []"
| "b64_sextets [a] = [a div 4, (a mod 4) * 16]"
| "b64_sextets [a, b] = [a div 4, (a mod 4) * 16 + b div 16, (b mod 16) * 4]"
| "b64_sextets (a # b # c # rest) =
     [a div 4, (a mod 4) * 16 + b div 16, (b mod 16) * 4 + c div 64, c mod 64] @ b64_sextets rest"

definition b64_padding :: "nat list \<Rightarrow> string" where
  "b64_padding bs =
     (if length bs mod 3 = 1 then ''=='' else if length bs mod 3 = 2 then ''='' else [])"

subsection \<open>JavaScript strings, \<^verbatim>\<open>TextEncoder\<close> and \<^verbatim>\<open>TextDecoder\<close>\<close>

text \<open>
  A JavaScript string is a sequence of 16-bit code units. \<open>js_of_ascii\<close> writes one
  from ASCII text.
\<close>

type_synonym js_string = "16 word list"

definition js_of_ascii :: "string \<Rightarrow> js_string" where
  "js_of_ascii s = map (\<lambda>c. of_nat (of_char c)) s"

text \<open>
  \<^verbatim>\<open>TextEncoder.encode\<close> first converts the string to scalar values: a lead surrogate
  followed by a trail surrogate is one code point, any other surrogate becomes \<open>U+FFFD\<close>.
  Then each scalar value is written in UTF-8.
\<close>

definition is_lead_surrogate :: "16 word \<Rightarrow> bool" where
  "is_lead_surrogate c \<longleftrightarrow> 0xD800 \<le> unat c \<and> unat c \<le> 0xDBFF"

definition is_trail_surrogate :: "16 word \<Rightarrow> bool" where
  "is_trail_surrogate c \<longleftrightarrow> 0xDC00 \<le> unat c \<and> unat c \<le> 0xDFFF"

fun to_scalar_values :: "js_string \<Rightarrow> nat list" where
  "to_scalar_values [] = []"
| "to_scalar_values [c] =
     [if is_lead_surrogate c \<or> is_trail_surrogate c then 0xFFFD else unat c]"
| "to_scalar_values (c # d # rest) =
     (if is_lead_surrogate c \<and> is_trail_surrogate d
      then (0x10000 + (unat c - 0xD800) * 0x400 + (unat d - 0xDC00)) # to_scalar_values rest
      else (if is_lead_surrogate c \<or> is_trail_surrogate c then 0xFFFD else unat c)
             # to_scalar_values (d # rest))"

definition utf8_bytes :: "nat \<Rightarrow> nat list" where
  "utf8_bytes cp =
     (if cp < 0x80 then [cp]
      else if cp < 0x800 then [0xC0 + cp div 64, 0x80 + cp mod 64]
      else if cp < 0x10000 then [0xE0 + cp div 4096, 0x80 + (cp div 64) mod 64, 0x80 + cp mod 64]
      else [0xF0 + cp div 262144, 0x80 + (cp div 4096) mod 64, 0x80 + (cp div 64) mod 64,
            0x80 + cp mod 64])"

definition TextEncoder_encode :: "js_string \<Rightarrow> 8 word list" where
  "TextEncoder_encode s = map of_nat (concat (map utf8_bytes (to_scalar_values s)))"

text \<open>
  The UTF-8 decoder of the Encoding standard, which \<^verbatim>\<open>TextDecoder\<close> runs: the state is the
  code point being assembled, the number of continuation bytes still needed, and the
  bounds for the next byte. A byte that does not fit gives \<open>U+FFFD\<close> and is read again as
  the start of a sequence; input that ends inside a sequence gives \<open>U+FFFD\<close>.
\<close>

function utf8_decode :: "nat \<Rightarrow> nat \<Rightarrow> nat \<Rightarrow> nat \<Rightarrow> nat list \<Rightarrow> nat list" where
  "utf8_decode cp needed lower upper [] = (if needed = 0 then [] else [0xFFFD])"
| "utf8_decode cp needed lower upper (b # bs) =
     (if needed = 0 then
        (if b < 0x80 then b # utf8_decode 0 0 0x80 0xBF bs
         else if 0xC2 \<le> b \<and> b \<le> 0xDF then utf8_decode (b mod 32) 1 0x80 0xBF bs
         else if 0xE0 \<le> b \<and> b \<le> 0xEF
           then utf8_decode (b mod 16) 2 (if b = 0xE0 then 0xA0 else 0x80)
                  (if b = 0xED then 0x9F else 0xBF) bs
         else if 0xF0 \<le> b \<and> b \<le> 0xF4
           then utf8_decode (b mod 8) 3 (if b = 0xF0 then 0x90 else 0x80)
                  (if b = 0xF4 then 0x8F else 0xBF) bs
         else 0xFFFD # utf8_decode 0 0 0x80 0xBF bs)
      else if b < lower \<or> upper < b then 0xFFFD # utf8_decode 0 0 0x80 0xBF (b # bs)
      else if needed = 1 then (cp * 64 + b mod 64) # utf8_decode 0 0 0x80 0xBF bs
      else utf8_decode (cp * 64 + b mod 64) (needed - 1) 0x80 0xBF bs)"
  by pat_completeness auto
termination
  by (relation "measure (\<lambda>(cp, needed, lower, upper, bs). 2 * length bs + (if needed = 0 then 0 else 1))")
     auto

declare utf8_decode.simps [simp del]

text \<open>
  \<^verbatim>\<open>new TextDecoder()\<close> does not ignore the byte order mark: a first code point \<open>U+FEFF\<close>
  is dropped from the output. The code points are returned as UTF-16.
\<close>

definition utf16_units :: "nat \<Rightarrow> js_string" where
  "utf16_units cp =
     (if cp < 0x10000 then [of_nat cp]
      else [of_nat (0xD800 + (cp - 0x10000) div 0x400), of_nat (0xDC00 + (cp - 0x10000) mod 0x400)])"

definition strip_bom :: "nat list \<Rightarrow> nat list" where
  "strip_bom cps = (if cps \<noteq> [] \<and> hd cps = 0xFEFF then tl cps else cps)"

definition TextDecoder_decode :: "8 word list \<Rightarrow> js_string" where
  "TextDecoder_decode bytes =
     concat (map utf16_units (strip_bom (utf8_decode 0 0 0x80 0xBF (map unat bytes))))"

text \<open>A scalar value: a code point that is not a surrogate.\<close>

definition is_scalar :: "nat \<Rightarrow> bool" where
  "is_scalar cp \<longleftrightarrow> cp < 0x110000 \<and> \<not> (0xD800 \<le> cp \<and> cp \<le> 0xDFFF)"

subsection \<open>The platform's AES-GCM\<close>

text \<open>
  \<^verbatim>\<open>crypto.subtle.encrypt\<close> and \<^verbatim>\<open>decrypt\<close> with \<^verbatim>\<open>AES-GCM\<close> are the browser's. They are
  modelled from the standards they implement: the AES block cipher of FIPS 197 and the
  Galois/Counter mode of NIST SP 800-38D, with a 128-bit tag as the calls request.
\<close>

definition sbox :: "8 word list" where
  "sbox =
     [0x63, 0x7C, 0x77, 0x7B, 0xF2, 0x6B, 0x6F, 0xC5, 0x30, 0x01, 0x67, 0x2B, 0xFE, 0xD7, 0xAB, 0x76,
      0xCA, 0x82, 0xC9, 0x7D, 0xFA, 0x59, 0x47, 0xF0, 0xAD, 0xD4, 0xA2, 0xAF, 0x9C, 0xA4, 0x72, 0xC0,
      0xB7, 0xFD, 0x93, 0x26, 0x36, 0x3F, 0xF7, 0xCC, 0x34, 0xA5, 0xE5, 0xF1, 0x71, 0xD8, 0x31, 0x15,
      0x04, 0xC7, 0x23, 0xC3, 0x18, 0x96, 0x05, 0x9A, 0x07, 0x12, 0x80, 0xE2, 0xEB, 0x27, 0xB2, 0x75,
      0x09, 0x83, 0x2C, 0x1A, 0x1B, 0x6E, 0x5A, 0xA0, 0x52, 0x3B, 0xD6, 0xB3, 0x29, 0xE3, 0x2F, 0x84,
      0x53, 0xD1, 0x00, 0xED, 0x20, 0xFC, 0xB1, 0x5B, 0x6A, 0xCB, 0xBE, 0x39, 0x4A, 0x4C, 0x58, 0xCF,
      0xD0, 0xEF, 0xAA, 0xFB, 0x43, 0x4D, 0x33, 0x85, 0x45, 0xF9, 0x02, 0x7F, 0x50, 0x3C, 0x9F, 0xA8,
      0x51, 0xA3, 0x40, 0x8F, 0x92, 0x9D, 0x38, 0xF5, 0xBC, 0xB6, 0xDA, 0x21, 0x10, 0xFF, 0xF3, 0xD2,
      0xCD, 0x0C, 0x13, 0xEC, 0x5F, 0x97, 0x44, 0x17, 0xC4, 0xA7, 0x7E, 0x3D, 0x64, 0x5D, 0x19, 0x73,
      0x60, 0x81, 0x4F, 0xDC, 0x22, 0x2A, 0x90, 0x88, 0x46, 0xEE, 0xB8, 0x14, 0xDE, 0x5E, 0x0B, 0xDB,
      0xE0, 0x32, 0x3A, 0x0A, 0x49, 0x06, 0x24, 0x5C, 0xC2, 0xD3, 0xAC, 0x62, 0x91, 0x95, 0xE4, 0x79,
      0xE7, 0xC8, 0x37, 0x6D, 0x8D, 0xD5, 0x4E, 0xA9, 0x6C, 0x56, 0xF4, 0xEA, 0x65, 0x7A, 0xAE, 0x08,
      0xBA, 0x78, 0x25, 0x2E, 0x1C, 0xA6, 0xB4, 0xC6, 0xE8, 0xDD, 0x74, 0x1F, 0x4B, 0xBD, 0x8B, 0x8A,
      0x70, 0x3E, 0xB5, 0x66, 0x48, 0x03, 0xF6, 0x0E, 0x61, 0x35, 0x57, 0xB9, 0x86, 0xC1, 0x1D, 0x9E,
      0xE1, 0xF8, 0x98, 0x11, 0x69, 0xD9, 0x8E, 0x94, 0x9B, 0x1E, 0x87, 0xE9, 0xCE, 0x55, 0x28, 0xDF,
      0x8C, 0xA1, 0x89, 0x0D, 0xBF, 0xE6, 0x42, 0x68, 0x41, 0x99, 0x2D, 0x0F, 0xB0, 0x54, 0xBB, 0x16]"

definition sub_byte :: "8 word \<Rightarrow> 8 word" where
  "sub_byte b = sbox ! unat b"

definition xtime :: "8 word \<Rightarrow> 8 word" where
  "xtime b = push_bit 1 b XOR (if bit b 7 then 0x1B else 0)"

definition xor_bytes :: "8 word list \<Rightarrow> 8 word list \<Rightarrow> 8 word list" where
  "xor_bytes xs ys = map2 (XOR) xs ys"

text \<open>The state is the 16 bytes in input order: byte \<open>r + 4 * c\<close> is row \<open>r\<close>, column \<open>c\<close>.\<close>

definition shift_rows :: "8 word list \<Rightarrow> 8 word list" where
  "shift_rows s = map (\<lambda>i. s ! (i mod 4 + 4 * ((i div 4 + i mod 4) mod 4))) [0..<16]"

fun mix_column :: "8 word list \<Rightarrow> 8 word list" where
  "mix_column [a0, a1, a2, a3] =
     [xtime a0 XOR (xtime a1 XOR a1) XOR a2 XOR a3,
      a0 XOR xtime a1 XOR (xtime a2 XOR a2) XOR a3,
      a0 XOR a1 XOR xtime a2 XOR (xtime a3 XOR a3),
      (xtime a0 XOR a0) XOR a1 XOR a2 XOR xtime a3]"
| "mix_column col = col"

definition mix_columns :: "8 word list \<Rightarrow> 8 word list" where
  "mix_columns s = concat (map (\<lambda>c. mix_column (take 4 (drop (4 * c) s))) [0..<4])"

definition rcon :: "nat \<Rightarrow> 8 word" where
  "rcon j = (xtime ^^ (j - 1)) 1"

text \<open>The key schedule, as a list of 4-byte words; \<open>Nk\<close> is the key length in words.\<close>

definition next_word :: "nat \<Rightarrow> 8 word list list \<Rightarrow> 8 word list" where
  "next_word Nk ws =
     (let i = length ws;
          temp = last ws;
          temp = (if i mod Nk = 0
                  then xor_bytes (map sub_byte (rotate1 temp)) [rcon (i div Nk), 0, 0, 0]
                  else if Nk > 6 \<and> i mod Nk = 4 then map sub_byte temp
                  else temp)
      in xor_bytes (ws ! (i - Nk)) temp)"

definition expand_step :: "nat \<Rightarrow> 8 word list list \<Rightarrow> 8 word list list" where
  "expand_step Nk ws = ws @ [next_word Nk ws]"

definition key_expansion :: "8 word list \<Rightarrow> 8 word list list" where
  "key_expansion key =
     (let Nk = length key div 4;
          ws = map (\<lambda>i. take 4 (drop (4 * i) key)) [0..<Nk]
      in (expand_step Nk ^^ (4 * (Nk + 7) - Nk)) ws)"

definition round_key :: "8 word list list \<Rightarrow> nat \<Rightarrow> 8 word list" where
  "round_key ws r = concat (take 4 (drop (4 * r) ws))"

definition aes_round :: "8 word list list \<Rightarrow> nat \<Rightarrow> 8 word list \<Rightarrow> 8 word list" where
  "aes_round ws r s = xor_bytes (mix_columns (shift_rows (map sub_byte s))) (round_key ws r)"

definition aes_cipher :: "8 word list \<Rightarrow> 8 word list \<Rightarrow> 8 word list" where
  "aes_cipher key input =
     (let ws = key_expansion key;
          Nr = length key div 4 + 6;
          s = xor_bytes input (round_key ws 0);
          s = fold (aes_round ws) [1..<Nr] s
      in xor_bytes (shift_rows (map sub_byte s)) (round_key ws Nr))"

text \<open>Blocks of the mode are 128-bit words, the first byte the most significant.\<close>

definition block_of_bytes :: "8 word list \<Rightarrow> 128 word" where
  "block_of_bytes bs = foldl (\<lambda>acc b. push_bit 8 acc OR ucast b) 0 bs"

definition bytes_of_block :: "128 word \<Rightarrow> 8 word list" where
  "bytes_of_block w = map (\<lambda>i. ucast (drop_bit (8 * (15 - i)) w)) [0..<16]"

definition aes_block :: "8 word list \<Rightarrow> 128 word \<Rightarrow> 128 word" where
  "aes_block key w = block_of_bytes (aes_cipher key (bytes_of_block w))"

text \<open>
  Multiplication in the field of \<open>2^128\<close> elements, bit 0 of a block being its leftmost
  bit: the loop of SP 800-38D, Algorithm 1, with the pair \<open>(Z, V)\<close> as its state.
\<close>

fun gf_step :: "128 word \<Rightarrow> nat \<Rightarrow> 128 word \<times> 128 word \<Rightarrow> 128 word \<times> 128 word" where
  "gf_step x i (z, v) =
     (if bit x (127 - i) then z XOR v else z,
      if bit v 0 then drop_bit 1 v XOR push_bit 120 0xE1 else drop_bit 1 v)"

definition gf_mult :: "128 word \<Rightarrow> 128 word \<Rightarrow> 128 word" where
  "gf_mult x y = fst (fold (gf_step x) [0..<128] (0, y))"

definition pad16 :: "8 word list \<Rightarrow> 8 word list" where
  "pad16 bs = bs @ replicate ((16 - length bs mod 16) mod 16) 0"

definition blocks16 :: "8 word list \<Rightarrow> 128 word list" where
  "blocks16 bs = map (\<lambda>i. block_of_bytes (take 16 (drop (16 * i) bs))) [0..<length bs div 16]"

definition ghash_step :: "128 word \<Rightarrow> 128 word \<Rightarrow> 128 word \<Rightarrow> 128 word" where
  "ghash_step h y x = gf_mult (y XOR x) h"

definition ghash :: "128 word \<Rightarrow> 8 word list \<Rightarrow> 128 word" where
  "ghash h bs = foldl (ghash_step h) 0 (blocks16 bs)"

text \<open>The length of \<open>n\<close> bytes in bits, as 8 bytes.\<close>

definition len64 :: "nat \<Rightarrow> 8 word list" where
  "len64 n = map (\<lambda>i. ucast (drop_bit (8 * (7 - i)) (of_nat (8 * n) :: 64 word))) [0..<8]"

definition inc32 :: "128 word \<Rightarrow> 128 word" where
  "inc32 w = (w AND NOT 0xFFFFFFFF) OR ((w + 1) AND 0xFFFFFFFF)"

text \<open>
  The pre-counter block. \<open>E\<close> is the block cipher under the key, \<open>h = E 0\<close> the hash
  subkey.
\<close>

definition gcm_j0 :: "128 word \<Rightarrow> 8 word list \<Rightarrow> 128 word" where
  "gcm_j0 h iv =
     (if length iv = 12 then block_of_bytes (iv @ [0, 0, 0, 1])
      else ghash h (pad16 iv @ replicate 8 0 @ len64 (length iv)))"

definition keystream :: "(128 word \<Rightarrow> 128 word) \<Rightarrow> 128 word \<Rightarrow> nat \<Rightarrow> 8 word list" where
  "keystream E icb n =
     take n (concat (map (\<lambda>i. bytes_of_block (E ((inc32 ^^ i) icb))) [0..<(n + 15) div 16]))"

definition gctr :: "(128 word \<Rightarrow> 128 word) \<Rightarrow> 128 word \<Rightarrow> 8 word list \<Rightarrow> 8 word list" where
  "gctr E icb xs = xor_bytes xs (keystream E icb (length xs))"

definition gcm_tag ::
  "(128 word \<Rightarrow> 128 word) \<Rightarrow> 8 word list \<Rightarrow> 8 word list \<Rightarrow> 8 word list \<Rightarrow> 8 word list" where
  "gcm_tag E iv aad c =
     (let h = E 0;
          s = ghash h (pad16 aad @ pad16 c @ len64 (length aad) @ len64 (length c))
      in bytes_of_block (s XOR E (gcm_j0 h iv)))"

text \<open>Authenticated encryption: the ciphertext followed by the 16 bytes of the tag.\<close>

definition gcm_encrypt ::
  "(128 word \<Rightarrow> 128 word) \<Rightarrow> 8 word list \<Rightarrow> 8 word list \<Rightarrow> 8 word list \<Rightarrow> 8 word list" where
  "gcm_encrypt E iv aad p =
     (let c = gctr E (inc32 (gcm_j0 (E 0) iv)) p
      in c @ gcm_tag E iv aad c)"

text \<open>
  Authenticated decryption: the tag is recomputed over the associated data and the
  ciphertext and compared with the one received; only when they agree is anything
  decrypted.
\<close>

definition gcm_decrypt ::
  "(128 word \<Rightarrow> 128 word) \<Rightarrow> 8 word list \<Rightarrow> 8 word list \<Rightarrow> 8 word list \<Rightarrow> 8 word list option" where
  "gcm_decrypt E iv aad input =
     (if length input < 16 then None
      else
        (let c = take (length input - 16) input;
             t = drop (length input - 16) input
         in if gcm_tag E iv aad c = t
            then Some (gctr E (inc32 (gcm_j0 (E 0) iv)) c)
            else None))"

text \<open>
  The two calls. The key handle is the raw AES key, of 16, 24 or 32 bytes, usable for
  both operations, as \<^verbatim>\<open>generateSharedSecret\<close> makes them. The limit of \<open>2^39 - 256\<close> bytes
  on the plaintext is left out: no JavaScript engine holds a string that long.
\<close>

definition subtle_encrypt ::
  "8 word list \<Rightarrow> 8 word list \<Rightarrow> 8 word list \<Rightarrow> 8 word list \<Rightarrow> js_error + 8 word list" where
  "subtle_encrypt key iv additionalData data =
     (if length key \<notin> {16, 24, 32} then Inl (OtherError ''InvalidAccessError'')
      else Inr (gcm_encrypt (aes_block key) iv additionalData data))"

definition subtle_decrypt ::
  "8 word list \<Rightarrow> 8 word list \<Rightarrow> 8 word list \<Rightarrow> 8 word list \<Rightarrow> js_error + 8 word list" where
  "subtle_decrypt key iv additionalData data =
     (if length key \<notin> {16, 24, 32} then Inl (OtherError ''InvalidAccessError'')
      else (case gcm_decrypt (aes_block key) iv additionalData data of
              None \<Rightarrow> Inl (OtherError ''OperationError'')
            | Some p \<Rightarrow> Inr p))"

text \<open>
  Sample values for a worked AES-GCM instance: the 32-byte key \<open>00 01 ... 1f\<close> and its
  key schedule.
\<close>

definition sample_key :: "8 word list" where
  "sample_key =
     [0x00, 0x01, 0x02, 0x03, 0x04, 0x05, 0x06, 0x07,
      0x08, 0x09, 0x0A, 0x0B, 0x0C, 0x0D, 0x0E, 0x0F,
      0x10, 0x11, 0x12, 0x13, 0x14, 0x15, 0x16, 0x17,
      0x18, 0x19, 0x1A, 0x1B, 0x1C, 0x1D, 0x1E, 0x1F]"

definition sample_key_schedule :: "8 word list list" where
  "sample_key_schedule =
     [[0x00, 0x01, 0x02, 0x03], [0x04, 0x05, 0x06, 0x07], [0x08, 0x09, 0x0A, 0x0B], [0x0C, 0x0D, 0x0E, 0x0F],
      [0x10, 0x11, 0x12, 0x13], [0x14, 0x15, 0x16, 0x17], [0x18, 0x19, 0x1A, 0x1B], [0x1C, 0x1D, 0x1E, 0x1F],
      [0xA5, 0x73, 0xC2, 0x9F], [0xA1, 0x76, 0xC4, 0x98], [0xA9, 0x7F, 0xCE, 0x93], [0xA5, 0x72, 0xC0, 0x9C],
      [0x16, 0x51, 0xA8, 0xCD], [0x02, 0x44, 0xBE, 0xDA], [0x1A, 0x5D, 0xA4, 0xC1], [0x06, 0x40, 0xBA, 0xDE],
      [0xAE, 0x87, 0xDF, 0xF0], [0x0F, 0xF1, 0x1B, 0x68], [0xA6, 0x8E, 0xD5, 0xFB], [0x03, 0xFC, 0x15, 0x67],
      [0x6D, 0xE1, 0xF1, 0x48], [0x6F, 0xA5, 0x4F, 0x92], [0x75, 0xF8, 0xEB, 0x53], [0x73, 0xB8, 0x51, 0x8D],
      [0xC6, 0x56, 0x82, 0x7F], [0xC9, 0xA7, 0x99, 0x17], [0x6F, 0x29, 0x4C, 0xEC], [0x6C, 0xD5, 0x59, 0x8B],
      [0x3D, 0xE2, 0x3A, 0x75], [0x52, 0x47, 0x75, 0xE7], [0x27, 0xBF, 0x9E, 0xB4], [0x54, 0x07, 0xCF, 0x39],
      [0x0B, 0xDC, 0x90, 0x5F], [0xC2, 0x7B, 0x09, 0x48], [0xAD, 0x52, 0x45, 0xA4], [0xC1, 0x87, 0x1C, 0x2F],
      [0x45, 0xF5, 0xA6, 0x60], [0x17, 0xB2, 0xD3, 0x87], [0x30, 0x0D, 0x4D, 0x33], [0x64, 0x0A, 0x82, 0x0A],
      [0x7C, 0xCF, 0xF7, 0x1C], [0xBE, 0xB4, 0xFE, 0x54], [0x13, 0xE6, 0xBB, 0xF0], [0xD2, 0x61, 0xA7, 0xDF],
      [0xF0, 0x1A, 0xFA, 0xFE], [0xE7, 0xA8, 0x29, 0x79], [0xD7, 0xA5, 0x64, 0x4A], [0xB3, 0xAF, 0xE6, 0x40],
      [0x25, 0x41, 0xFE, 0x71], [0x9B, 0xF5, 0x00, 0x25], [0x88, 0x13, 0xBB, 0xD5], [0x5A, 0x72, 0x1C, 0x0A],
      [0x4E, 0x5A, 0x66, 0x99], [0xA9, 0xF2, 0x4F, 0xE0], [0x7E, 0x57, 0x2B, 0xAA], [0xCD, 0xF8, 0xCD, 0xEA],
      [0x24, 0xFC, 0x79, 0xCC], [0xBF, 0x09, 0x79, 0xE9], [0x37, 0x1A, 0xC2, 0x3C], [0x6D, 0x68, 0xDE, 0x36]]"

subsection \<open>\<^verbatim>\<open>encryptMessage\<close> and \<^verbatim>\<open>decryptMessage\<close>\<close>

text \<open>The envelope \<^verbatim>\<open>encryptMessage\<close> returns; its four fields are strings.\<close>

record EncryptedMessage =
  ciphertext :: string
  iv :: string
  salt :: string
  algorithm :: string

text \<open>
  \<^verbatim>\<open>encryptMessage\<close>. \<open>isInitialized\<close> is the manager's flag; \<open>random12\<close> and \<open>random16\<close> are
  what the two calls of \<^verbatim>\<open>crypto.getRandomValues\<close> return. Whatever is thrown inside
  the \<^verbatim>\<open>try\<close> block is replaced by \<^verbatim>\<open>Error('Failed to encrypt message')\<close>.
\<close>

definition encryptMessage ::
  "bool \<Rightarrow> js_string \<Rightarrow> 8 word list \<Rightarrow> js_string \<Rightarrow> 8 word list \<Rightarrow> 8 word list
     \<Rightarrow> js_error + EncryptedMessage" where
  "encryptMessage isInitialized message sharedSecret conversationId random12 random16 =
     (if \<not> isInitialized then Inl (OtherError ''Failed to encrypt message'')
      else
        (let data = TextEncoder_encode message;
             iv = random12;
             salt = random16
         in case subtle_encrypt sharedSecret iv (TextEncoder_encode conversationId) data of
              Inl e \<Rightarrow> Inl (OtherError ''Failed to encrypt message'')
            | Inr encrypted \<Rightarrow>
                Inr \<lparr>ciphertext = arrayBufferToBase64 encrypted,
                     iv = arrayBufferToBase64 iv,
                     salt = arrayBufferToBase64 salt,
                     algorithm = ''AES-GCM''\<rparr>))"

text \<open>
  \<^verbatim>\<open>decryptMessage\<close>; every failure inside the \<^verbatim>\<open>try\<close> block becomes
  \<^verbatim>\<open>Error('Failed to decrypt message')\<close>.
\<close>

definition decryptMessage ::
  "bool \<Rightarrow> EncryptedMessage \<Rightarrow> 8 word list \<Rightarrow> js_string \<Rightarrow> js_error + js_string" where
  "decryptMessage isInitialized encryptedData sharedSecret conversationId =
     (if \<not> isInitialized then Inl (OtherError ''Failed to decrypt message'')
      else
        (case base64ToArrayBuffer (ciphertext encryptedData) of
           Inl e \<Rightarrow> Inl (OtherError ''Failed to decrypt message'')
         | Inr ciphertext_bytes \<Rightarrow>
             (case base64ToArrayBuffer (iv encryptedData) of
                Inl e \<Rightarrow> Inl (OtherError ''Failed to decrypt message'')
              | Inr iv_bytes \<Rightarrow>
                  (case subtle_decrypt sharedSecret iv_bytes (TextEncoder_encode conversationId)
                          ciphertext_bytes of
                     Inl e \<Rightarrow> Inl (OtherError ''Failed to decrypt message'')
                   | Inr decrypted \<Rightarrow> Inr (TextDecoder_decode decrypted)))))"

text \<open>
  \<open>decrypt(encrypt(P, key, C1), key, C2)\<close>: the message is encrypted under context \<open>C1\<close>
  and the envelope decrypted under context \<open>C2\<close>, by the same manager.
\<close>

definition decrypt_of_encrypt ::
  "bool \<Rightarrow> js_string \<Rightarrow> 8 word list \<Rightarrow> js_string \<Rightarrow> js_string \<Rightarrow> 8 word list \<Rightarrow> 8 word list
     \<Rightarrow> js_error + js_string" where
  "decrypt_of_encrypt isInitialized P key C1 C2 random12 random16 =
     (case encryptMessage isInitialized P key C1 random12 random16 of
        Inl e \<Rightarrow> Inl e
      | Inr envelope \<Rightarrow> decryptMessage isInitialized envelope key C2)"

text \<open>A string with no unpaired surrogate.\<close>

fun well_formed :: "js_string \<Rightarrow> bool" where
  "well_formed [] = True"
| "well_formed [c] = (\<not> is_lead_surrogate c \<and> \<not> is_trail_surrogate c)"
| "well_formed (c # d # rest) =
     (if is_lead_surrogate c \<and> is_trail_surrogate d then well_formed rest
      else \<not> is_lead_surrogate c \<and> \<not> is_trail_surrogate c \<and> well_formed (d # rest))"

subsection \<open>\<^verbatim>\<open>verifySignature\<close>\<close>

text \<open>
  The data to verify is a string, which is encoded, or already a buffer. The public key
  is a \<^verbatim>\<open>CryptoKey\<close> handle or anything else, which the function takes for a base64
  string and imports.
\<close>

datatype data_arg = StringData js_string | BufferData "8 word list"

datatype 'k public_key_arg = CryptoKey 'k | SerializedKey string

text \<open>
  \<^verbatim>\<open>verifySignature\<close>. The two platform calls are parameters: \<open>importKey\<close> is
  \<^verbatim>\<open>crypto.subtle.importKey('spki', \<dots>, RSA-OAEP, false, ['verify'])\<close> and \<open>verify\<close> is
  \<^verbatim>\<open>crypto.subtle.verify\<close> with RSA-PSS; either may reject. The result is how the promise
  settles: \<open>Inl\<close> would be a rejection. The whole body stands in a \<^verbatim>\<open>try\<close> block whose
  \<^verbatim>\<open>catch\<close> returns \<^verbatim>\<open>false\<close>.
\<close>

definition verifySignature_body ::
  "(8 word list \<Rightarrow> js_error + 'k) \<Rightarrow> ('k \<Rightarrow> 8 word list \<Rightarrow> 8 word list \<Rightarrow> js_error + bool)
     \<Rightarrow> data_arg \<Rightarrow> string \<Rightarrow> 'k public_key_arg \<Rightarrow> js_error + bool" where
  "verifySignature_body importKey verify data sig publicKey =
     (let dataArray = (case data of StringData s \<Rightarrow> TextEncoder_encode s | BufferData b \<Rightarrow> b)
      in case base64ToArrayBuffer sig of
           Inl e \<Rightarrow> Inl e
         | Inr signatureArray \<Rightarrow>
             (case (case publicKey of
                      CryptoKey k \<Rightarrow> Inr k
                    | SerializedKey s \<Rightarrow>
                        (case base64ToArrayBuffer s of
                           Inl e \<Rightarrow> Inl e
                         | Inr spki \<Rightarrow> importKey spki)) of
                Inl e \<Rightarrow> Inl e
              | Inr publicKeyObj \<Rightarrow> verify publicKeyObj signatureArray dataArray))"

definition verifySignature ::
  "(8 word list \<Rightarrow> js_error + 'k) \<Rightarrow> ('k \<Rightarrow> 8 word list \<Rightarrow> 8 word list \<Rightarrow> js_error + bool)
     \<Rightarrow> data_arg \<Rightarrow> string \<Rightarrow> 'k public_key_arg \<Rightarrow> js_error + bool" where
  "verifySignature importKey verify data sig publicKey =
     (case verifySignature_body importKey verify data sig publicKey of
        Inl error \<Rightarrow> Inr False
      | Inr isValid \<Rightarrow> Inr isValid)"

section \<open>Frontend: \<^verbatim>\<open>AuthManager\<close> and the CAPTCHA tokens\<close>

text \<open>
  \<^verbatim>\<open>Utils.constantTimeEquals\<close>: unequal lengths give \<^verbatim>\<open>false\<close> at once; otherwise the
  differences of all code units are collected with \<open>OR\<close> in a 32-bit integer.
\<close>

definition constantTimeEquals :: "js_string \<Rightarrow> js_string \<Rightarrow> bool" where
  "constantTimeEquals a b =
     (if length a \<noteq> length b then False
      else foldl (\<lambda>result (x, y). result OR (ucast x XOR ucast y)) (0 :: 32 word) (zip a b) = 0)"

text \<open>An entry of the map \<^verbatim>\<open>captchaTokens\<close>.\<close>

record captcha_data =
  challenge :: js_string
  solution :: js_string
  createdAt :: int
  used :: bool

type_synonym captcha_tokens = "js_string \<rightharpoonup> captcha_data"

text \<open>
  \<^verbatim>\<open>validateCaptcha\<close>. \<open>toLowerCase\<close> is the platform's \<^verbatim>\<open>String.prototype.toLowerCase\<close>,
  a parameter; \<open>now\<close> is \<^verbatim>\<open>Date.now()\<close>. The entry found in the map is the object itself,
  so setting its \<^verbatim>\<open>used\<close> field changes the map. The function returns its result and the
  map it leaves. With strings as arguments nothing in the body throws.
\<close>

definition validateCaptcha ::
  "(js_string \<Rightarrow> js_string) \<Rightarrow> js_string \<Rightarrow> js_string \<Rightarrow> int \<Rightarrow> captcha_tokens
     \<Rightarrow> bool \<times> captcha_tokens" where
  "validateCaptcha toLowerCase userInput token now captchaTokens =
     (case captchaTokens token of
        None \<Rightarrow> (False, captchaTokens)
      | Some captchaData \<Rightarrow>
          if used captchaData \<or> now - createdAt captchaData > 5 * 60 * 1000
          then (False, captchaTokens)
          else
            (let isValid = constantTimeEquals (toLowerCase userInput)
                             (toLowerCase (solution captchaData))
             in (isValid,
                 if isValid then captchaTokens(token \<mapsto> captchaData\<lparr>used := True\<rparr>)
                 else captchaTokens)))"

text \<open>The token has an entry and the entry is marked used.\<close>

definition token_used :: "captcha_tokens \<Rightarrow> js_string \<Rightarrow> bool" where
  "token_used st token \<longleftrightarrow> (case st token of None \<Rightarrow> False | Some d \<Rightarrow> used d)"

text \<open>
  What a successful \<^verbatim>\<open>getCaptcha\<close> does to the map: it stores the token of the server's
  response with a fresh, unused entry.
\<close>

definition getCaptcha_store ::
  "js_string \<Rightarrow> js_string \<Rightarrow> js_string \<Rightarrow> int \<Rightarrow> captcha_tokens \<Rightarrow> captcha_tokens" where
  "getCaptcha_store token chal sol now captchaTokens =
     captchaTokens(token \<mapsto> \<lparr>challenge = chal, solution = sol, createdAt = now, used = False\<rparr>)"

text \<open>
  The calls that touch the map, and a run of them. A call re-issues a token when it is a
  \<^verbatim>\<open>getCaptcha\<close> whose response carries that token again.
\<close>

datatype captcha_call =
    ValidateCaptcha js_string js_string int
  | GetCaptcha js_string js_string js_string int

fun run_call :: "(js_string \<Rightarrow> js_string) \<Rightarrow> captcha_call \<Rightarrow> captcha_tokens \<Rightarrow> captcha_tokens" where
  "run_call toLowerCase (ValidateCaptcha userInput token now) st =
     snd (validateCaptcha toLowerCase userInput token now st)"
| "run_call toLowerCase (GetCaptcha token chal sol now) st = getCaptcha_store token chal sol now st"

definition run_calls ::
  "(js_string \<Rightarrow> js_string) \<Rightarrow> captcha_call list \<Rightarrow> captcha_tokens \<Rightarrow> captcha_tokens" where
  "run_calls toLowerCase calls st = fold (run_call toLowerCase) calls st"

fun reissues :: "js_string \<Rightarrow> captcha_call \<Rightarrow> bool" where
  "reissues token (ValidateCaptcha userInput t now) = False"
| "reissues token (GetCaptcha t chal sol now) = (t = token)"

text \<open>Lower case on ASCII letters, for the sample runs.\<close>

definition ascii_lower :: "js_string \<Rightarrow> js_string" where
  "ascii_lower s = map (\<lambda>c. if 65 \<le> unat c \<and> unat c \<le> 90 then c + 32 else c) s"

definition sample_tokens :: captcha_tokens where
  "sample_tokens =
     getCaptcha_store (js_of_ascii ''tok1'') (js_of_ascii ''3 + 4'') (js_of_ascii ''Seven'') 1000
       Map.empty"

section \<open>Rate limiting: properties\<close>

lemma validateRateLimit_cases:
  "validateRateLimit request now st =
     (if length (filter (\<lambda>u. now - u < RATE_LIMIT_WINDOW) (recorded st request)) \<ge> 100
      then (Inl (SecurityError ''Rate limit exceeded'' ''RATE_LIMIT_EXCEEDED''), st)
      else (Inr (), st\<lparr>rateLimitMap := (rateLimitMap st)(getClientKey request \<mapsto>
            filter (\<lambda>u. now - u < RATE_LIMIT_WINDOW) (recorded st request) @ [now])\<rparr>))"
  by (simp add: validateRateLimit_def RATE_LIMIT_MAX_REQUESTS_def Let_def recorded_def)



text \<open>
  C10. When the rate-limit check rejects a request with \<^verbatim>\<open>RATE_LIMIT_EXCEEDED\<close>, the state
  after the call is the state before it: the rejected request is not recorded, the
  client's stored array keeps its old content, and no other client's entry changes.
\<close>

theorem rate_limit_reject_state_unchanged:
  "fst (validateRateLimit request now st) = Inl (SecurityError msg ''RATE_LIMIT_EXCEEDED'')
   \<Longrightarrow> snd (validateRateLimit request now st) = st"
  by (simp add: validateRateLimit_def Let_def split: if_splits)

text \<open>
  An instance: a client whose stored array holds 100 requests made at time 0 is rejected
  at time 5, and the state stays as it was.
\<close>

theorem rate_limit_reject_state_unchanged_witness:
  "fst (validateRateLimit full_request 5 full_state)
     = Inl (SecurityError ''Rate limit exceeded'' ''RATE_LIMIT_EXCEEDED'')
   \<and> snd (validateRateLimit full_request 5 full_state) = full_state"
proof -
  have rej: "fst (validateRateLimit full_request 5 full_state)
     = Inl (SecurityError ''Rate limit exceeded'' ''RATE_LIMIT_EXCEEDED'')"
    by (simp add: validateRateLimit_def Let_def full_state_def RATE_LIMIT_WINDOW_def
        RATE_LIMIT_MAX_REQUESTS_def)
  from rej rate_limit_reject_state_unchanged [OF rej] show ?thesis by simp
qed



section \<open>Brute-force lockout: properties\<close>

lemma validateBruteForce_login:
  "path request = ''/api/auth/login'' \<Longrightarrow>
   validateBruteForce request now st =
     (if length (failedAttempts_at st request now) \<ge> 3
         \<and> now < lockoutUntil (failedAttempts_at st request now)
      then Inl (AuthenticationError
             ''Account temporarily locked due to too many failed login attempts'')
      else Inr ())"
  by (simp add: validateBruteForce_def failedAttempts_at_def lockoutUntil_def Let_def
      MAX_LOGIN_ATTEMPTS_def)

lemma failedAttempts_at_member:
  "a \<in> set (failedAttempts_at st request now) \<longleftrightarrow>
     a \<in> set (attempts_of st request) \<and> \<not> success a
       \<and> now - attempt_timestamp a < 24 * 60 * 60 * 1000"
  by (auto simp: failedAttempts_at_def)

lemma lockoutUntil_ge:
  "attempt_timestamp (last fs) + 24 * 60 * 60 * 1000 \<le> lockoutUntil fs"
proof -
  have "(1::int) \<le> 3 ^ (length fs - 3)" by simp
  then have "(24 * 60 * 60 * 1000 :: int) * 1 \<le> 3 ^ (length fs - 3) * (24 * 60 * 60 * 1000)"
    by simp
  then show ?thesis by (simp add: lockoutUntil_def LOCKOUT_BASE_DURATION_def)
qed

text \<open>
  Inside the window the expiry always lies ahead: the last failure is less than 24 hours
  old and the lockout lasts at least 24 hours. So the check rejects exactly when three
  or more failures lie inside the window.
\<close>

lemma brute_force_locked_iff:
  assumes "path request = ''/api/auth/login''"
  shows "validateBruteForce request now st =
           Inl (AuthenticationError
             ''Account temporarily locked due to too many failed login attempts'')
         \<longleftrightarrow> length (failedAttempts_at st request now) \<ge> 3"
proof (cases "length (failedAttempts_at st request now) \<ge> 3")
  case True
  let ?F = "failedAttempts_at st request now"
  have "?F \<noteq> []" using True by auto
  then have "last ?F \<in> set ?F" by simp
  then have "now - attempt_timestamp (last ?F) < 24 * 60 * 60 * 1000"
    by (simp add: failedAttempts_at_member)
  then have "now < lockoutUntil ?F"
    using lockoutUntil_ge [of ?F] by linarith
  then show ?thesis using True by (simp add: validateBruteForce_login [OF assms])
next
  case False
  then show ?thesis by (simp add: validateBruteForce_login [OF assms])
qed

text \<open>
  So the lockout duration decides nothing: whatever the number of failures, the check
  is the count of the failures inside the 24-hour window at the time of the attempt.
\<close>

lemma lockout_duration_unused:
  "validateBruteForce request now st =
     (if path request = ''/api/auth/login'' \<and> length (failedAttempts_at st request now) \<ge> 3
      then Inl (AuthenticationError
             ''Account temporarily locked due to too many failed login attempts'')
      else Inr ())"
proof (cases "path request = ''/api/auth/login''")
  case True
  show ?thesis
  proof (cases "length (failedAttempts_at st request now) \<ge> 3")
    case locked: True
    then show ?thesis using brute_force_locked_iff [OF True, of now st] True by simp
  next
    case False
    then show ?thesis using True by (simp add: validateBruteForce_login)
  qed
next
  case False
  then show ?thesis by (simp add: validateBruteForce_def)
qed

lemma failures_recorded_attempts:
  "attempts_of (failures_recorded [0, 1000, 2000, 3000]) brute_request =
     map (\<lambda>t. \<lparr>username = ''u'', attempt_timestamp = t, ip = ''unknown'',
                fingerprint = ''unknown'', success = False\<rparr>) [0, 1000, 2000, 3000]"
  "attempts_of (failures_recorded [0, 1000, 2000]) brute_request =
     map (\<lambda>t. \<lparr>username = ''u'', attempt_timestamp = t, ip = ''unknown'',
                fingerprint = ''unknown'', success = False\<rparr>) [0, 1000, 2000]"
  by (simp_all add: failures_recorded_def recordLoginAttempt_def attempts_of_def Let_def
      empty_state_def header_or_def brute_request_def)

text \<open>
  C6, on the code. Four failed logins of one client are recorded at times 0, 1000, 2000
  and 3000. At time 5000 all four lie inside the 24-hour window: the attempt is rejected,
  and the lockout expiry computed is \<open>3000 + 3 * 86400000 = 259203000\<close>. At time 86401000,
  long before that expiry, the failures of times 0 and 1000 have left the window, two
  are left, and the attempt passes. With the three failures of times 0, 1000 and 2000
  the expiry computed is 86402000, and the attempt at time 86400500 passes.
\<close>

theorem brute_force_lockout_ends_early:
  "validateBruteForce brute_request 5000 (failures_recorded [0, 1000, 2000, 3000])
     = Inl (AuthenticationError
         ''Account temporarily locked due to too many failed login attempts'')
   \<and> lockoutUntil (failedAttempts_at (failures_recorded [0, 1000, 2000, 3000]) brute_request 5000)
       = 259203000
   \<and> validateBruteForce brute_request 86401000 (failures_recorded [0, 1000, 2000, 3000]) = Inr ()
   \<and> validateBruteForce brute_request 5000 (failures_recorded [0, 1000, 2000])
       = Inl (AuthenticationError
           ''Account temporarily locked due to too many failed login attempts'')
   \<and> lockoutUntil (failedAttempts_at (failures_recorded [0, 1000, 2000]) brute_request 5000)
       = 86402000
   \<and> validateBruteForce brute_request 86400500 (failures_recorded [0, 1000, 2000]) = Inr ()"
proof -
  have p: "path brute_request = ''/api/auth/login''" by (simp add: brute_request_def)
  have four: "failedAttempts_at (failures_recorded [0, 1000, 2000, 3000]) brute_request 5000 =
      map (\<lambda>t. \<lparr>username = ''u'', attempt_timestamp = t, ip = ''unknown'',
                fingerprint = ''unknown'', success = False\<rparr>) [0, 1000, 2000, 3000]"
    by (simp add: failedAttempts_at_def failures_recorded_attempts)
  have four_late: "failedAttempts_at (failures_recorded [0, 1000, 2000, 3000]) brute_request
      86401000 =
      map (\<lambda>t. \<lparr>username = ''u'', attempt_timestamp = t, ip = ''unknown'',
                fingerprint = ''unknown'', success = False\<rparr>) [2000, 3000]"
    by (simp add: failedAttempts_at_def failures_recorded_attempts)
  have three: "failedAttempts_at (failures_recorded [0, 1000, 2000]) brute_request 5000 =
      map (\<lambda>t. \<lparr>username = ''u'', attempt_timestamp = t, ip = ''unknown'',
                fingerprint = ''unknown'', success = False\<rparr>) [0, 1000, 2000]"
    by (simp add: failedAttempts_at_def failures_recorded_attempts)
  have three_late: "failedAttempts_at (failures_recorded [0, 1000, 2000]) brute_request
      86400500 =
      map (\<lambda>t. \<lparr>username = ''u'', attempt_timestamp = t, ip = ''unknown'',
                fingerprint = ''unknown'', success = False\<rparr>) [1000, 2000]"
    by (simp add: failedAttempts_at_def failures_recorded_attempts)
  show ?thesis
    by (simp add: validateBruteForce_login [OF p] four four_late three three_late lockoutUntil_def
        LOCKOUT_BASE_DURATION_def)
qed

section \<open>Request validation: properties\<close>

lemma parse_missing_signature:
  "falsy_header (collect_headers (request_headers request)) ''x-signature''
   \<Longrightarrow> \<exists>msg. parseAndValidateRequest request now = Inl (ValidationError msg)"
  by (simp add: parseAndValidateRequest_def Let_def)

lemma parse_stale_timestamp:
  "parseInt (header_value (collect_headers (request_headers request)) ''x-timestamp'') = Some t
   \<Longrightarrow> \<bar>now - t\<bar> > 5 * 60 * 1000
   \<Longrightarrow> \<exists>msg. parseAndValidateRequest request now = Inl (ValidationError msg)"
  by (simp add: parseAndValidateRequest_def Let_def)

lemma validateIncoming_parse_error:
  "parseAndValidateRequest request now_parse = Inl e
   \<Longrightarrow> validateIncoming request now_parse now_rate now_brute st = (Inl e, st)"
  by (simp add: validateIncoming_def)

text \<open>
  C4, as the code has it. A request that arrives without an \<^verbatim>\<open>x-signature\<close> header (or
  with an empty one) is rejected by \<^verbatim>\<open>parseAndValidateRequest\<close>, the first step of the
  handler, with a \<^verbatim>\<open>ValidationError\<close>, and the security manager's state is untouched.
  \<^verbatim>\<open>SecurityError\<close> with code \<^verbatim>\<open>MISSING_SIGNATURE\<close> is what \<^verbatim>\<open>validateSignature\<close> throws when it is
  given a parsed request without a signature. A request whose timestamp differs from the
  time of receipt by more than 5 minutes is rejected with a \<^verbatim>\<open>ValidationError\<close>.
\<close>

theorem missing_signature_and_stale_timestamp:
  "(falsy_header (collect_headers (request_headers request)) ''x-signature''
      \<longrightarrow> (\<exists>msg. validateIncoming request now_parse now_rate now_brute st
                  = (Inl (ValidationError msg), st)))
   \<and> (falsy_header (headers apiRequest) ''x-signature''
      \<longrightarrow> validateSignature apiRequest = Inl (SecurityError ''Missing signature'' ''MISSING_SIGNATURE''))
   \<and> ((\<exists>t. parseInt (header_value (collect_headers (request_headers request)) ''x-timestamp'') = Some t
            \<and> \<bar>now_parse - t\<bar> > 5 * 60 * 1000)
      \<longrightarrow> (\<exists>msg. validateIncoming request now_parse now_rate now_brute st
                  = (Inl (ValidationError msg), st)))"
proof (intro conjI impI)
  assume "falsy_header (collect_headers (request_headers request)) ''x-signature''"
  then obtain msg where "parseAndValidateRequest request now_parse = Inl (ValidationError msg)"
    using parse_missing_signature by blast
  then show "\<exists>msg. validateIncoming request now_parse now_rate now_brute st
                  = (Inl (ValidationError msg), st)"
    by (auto simp: validateIncoming_parse_error)
next
  assume "falsy_header (headers apiRequest) ''x-signature''"
  then show "validateSignature apiRequest = Inl (SecurityError ''Missing signature'' ''MISSING_SIGNATURE'')"
    by (simp add: validateSignature_def)
next
  assume "\<exists>t. parseInt (header_value (collect_headers (request_headers request)) ''x-timestamp'') = Some t
            \<and> \<bar>now_parse - t\<bar> > 5 * 60 * 1000"
  then obtain msg where "parseAndValidateRequest request now_parse = Inl (ValidationError msg)"
    using parse_stale_timestamp by blast
  then show "\<exists>msg. validateIncoming request now_parse now_rate now_brute st
                  = (Inl (ValidationError msg), st)"
    by (auto simp: validateIncoming_parse_error)
qed

lemma collect_unsigned:
  "collect_headers (request_headers unsigned_request) =
     [''content-type'' \<mapsto> ''application/json'', ''x-nonce'' \<mapsto> ''bm9uY2U='', ''x-timestamp'' \<mapsto> ''1000'']"
  by (simp add: collect_headers_def unsigned_request_def toLowerCase_ascii_def)

lemma collect_signed:
  "collect_headers (request_headers signed_request) =
     [''content-type'' \<mapsto> ''application/json'', ''x-nonce'' \<mapsto> ''bm9uY2U='',
      ''x-signature'' \<mapsto> ''c2ln'', ''x-timestamp'' \<mapsto> ''1000'']"
  by (simp add: collect_headers_def signed_request_def toLowerCase_ascii_def)

lemma signed_request_fields:
  "has_body signed_request = False" "url_pathname signed_request = ''/api/health''"
  "request_method signed_request = ''GET''"
  by (simp_all add: signed_request_def)

lemma parseInt_1000: "parseInt ''1000'' = Some 1000"
  by (simp add: parseInt_def is_js_whitespace_def is_digit_def digit_value_def digits_value_def Let_def)

text \<open>
  The claim as stated fails: a request with every required header but the signature is
  rejected with \<^verbatim>\<open>ValidationError\<close>, message \<^verbatim>\<open>Missing signature header\<close>, and not with a
  \<^verbatim>\<open>SecurityError\<close>.
\<close>

theorem missing_signature_counterexample:
  "validateIncoming unsigned_request 1000 1000 1000 empty_state
     = (Inl (ValidationError ''Missing signature header''), empty_state)"
  by (simp add: validateIncoming_def parseAndValidateRequest_def collect_unsigned
      falsy_header_def Let_def)

text \<open>
  Instances: the unsigned request at time 1000; \<^verbatim>\<open>validateSignature\<close> on a parsed request
  with no headers; the signed request, stamped 1000, received at time 400000.
\<close>

theorem missing_signature_and_stale_timestamp_witness:
  "validateIncoming unsigned_request 1000 1000 1000 empty_state
     = (Inl (ValidationError ''Missing signature header''), empty_state)
   \<and> validateSignature full_request = Inl (SecurityError ''Missing signature'' ''MISSING_SIGNATURE'')
   \<and> validateIncoming signed_request 400000 400000 400000 empty_state
     = (Inl (ValidationError ''Timestamp too old or too far in future''), empty_state)"
proof -
  have a: "falsy_header (collect_headers (request_headers unsigned_request)) ''x-signature''"
    by (simp add: collect_unsigned falsy_header_def)
  have b: "falsy_header (headers full_request) ''x-signature''"
    by (simp add: full_request_def falsy_header_def)
  have c: "\<exists>t. parseInt (header_value (collect_headers (request_headers signed_request)) ''x-timestamp'') = Some t
            \<and> \<bar>400000 - t\<bar> > 5 * 60 * 1000"
    by (simp add: collect_signed header_value_def parseInt_1000)
  have u: "parseAndValidateRequest unsigned_request 1000 = Inl (ValidationError ''Missing signature header'')"
    by (simp add: parseAndValidateRequest_def collect_unsigned falsy_header_def Let_def)
  have s: "parseAndValidateRequest signed_request 400000
      = Inl (ValidationError ''Timestamp too old or too far in future'')"
    by (simp add: parseAndValidateRequest_def collect_signed falsy_header_def Let_def
        header_value_def parseInt_1000 signed_request_fields)
  from missing_signature_and_stale_timestamp
         [of unsigned_request 1000 1000 1000 empty_state full_request] a b
       missing_signature_and_stale_timestamp
         [of signed_request 400000 400000 400000 empty_state full_request] c u s
  show ?thesis by (auto simp: validateIncoming_def)
qed

lemma sig_format: "isValidSignatureFormat ''c2ln''"
  by (simp add: isValidSignatureFormat_def atob_def strip_padding_def is_ascii_whitespace_def
      b64_value_def Let_def)

lemma parse_signed:
  "\<bar>now - 1000\<bar> \<le> 300000 \<Longrightarrow> parseAndValidateRequest signed_request now = Inr signed_api"
  by (simp add: parseAndValidateRequest_def collect_signed falsy_header_def Let_def
        header_value_def parseInt_1000 signed_request_fields signed_api_def)

lemma validate_signed_api:
  "length (filter (\<lambda>u. now - u < RATE_LIMIT_WINDOW) (recorded st signed_api)) < 100
   \<Longrightarrow> validateRequest signed_api now now' st =
       (Inr (), st\<lparr>rateLimitMap := (rateLimitMap st)(getClientKey signed_api \<mapsto>
            filter (\<lambda>u. now - u < RATE_LIMIT_WINDOW) (recorded st signed_api) @ [now])\<rparr>)"
  by (simp add: validateRequest_def validateRateLimit_cases validateSignature_def
      signed_api_def collect_signed falsy_header_def header_value_def sig_format
      validateBruteForce_def requiresAuthentication_def)

text \<open>
  C3. The validation keeps no record of nonces: it checks that the \<^verbatim>\<open>x-nonce\<close> header is
  present and does nothing else with it. The same request, with the same nonce,
  delivered at time 1000 and again at time 1001, passes the whole validation both times.
\<close>

theorem nonce_replay_accepted:
  "fst (validateIncoming signed_request 1000 1000 1000 empty_state) = Inr signed_api
   \<and> fst (validateIncoming signed_request 1001 1001 1001
           (snd (validateIncoming signed_request 1000 1000 1000 empty_state))) = Inr signed_api"
proof -
  have r0: "recorded empty_state signed_api = []"
    by (simp add: recorded_def empty_state_def)
  have first: "validateIncoming signed_request 1000 1000 1000 empty_state =
      (Inr signed_api, empty_state\<lparr>rateLimitMap := (rateLimitMap empty_state)(getClientKey signed_api \<mapsto> [1000])\<rparr>)"
    by (simp add: validateIncoming_def parse_signed validate_signed_api r0)
  have r1: "recorded (empty_state\<lparr>rateLimitMap := (rateLimitMap empty_state)(getClientKey signed_api \<mapsto> [1000])\<rparr>) signed_api = [1000]"
    by (simp add: recorded_def)
  show ?thesis
    by (simp add: first) (simp add: validateIncoming_def parse_signed validate_signed_api r1)
qed

section \<open>Base64: properties\<close>

lemma b64_value_char: "n < 64 \<Longrightarrow> b64_value (b64_char n) = Some n"
  by (auto simp: b64_value_def b64_char_def Let_def)

lemma b64_char_not_pad: "n < 64 \<Longrightarrow> b64_char n \<noteq> CHR ''=''"
  using b64_value_char [of n] by (auto simp: b64_value_def)

lemma b64_char_not_ws: "n < 64 \<Longrightarrow> \<not> is_ascii_whitespace (b64_char n)"
  using b64_value_char [of n] by (auto simp: b64_value_def is_ascii_whitespace_def Let_def split: if_splits)

lemma pad_not_ws: "\<not> is_ascii_whitespace CHR ''=''"
  by (simp add: is_ascii_whitespace_def)

lemma b64_encode_split:
  "b64_encode bs = map b64_char (b64_sextets bs) @ b64_padding bs"
  by (induction bs rule: b64_encode.induct) (simp_all add: b64_padding_def)

lemma b64_sextets_bound:
  "\<forall>b\<in>set bs. b < 256 \<Longrightarrow> \<forall>s\<in>set (b64_sextets bs). s < 64"
  by (induction bs rule: b64_sextets.induct) auto

lemma b64_sextets_length:
  "length (b64_sextets bs) mod 4 \<noteq> 1"
  by (induction bs rule: b64_sextets.induct) auto

lemma b64_decode_sextets:
  "\<forall>b\<in>set bs. b < 256 \<Longrightarrow> b64_decode (b64_sextets bs) = bs"
  by (induction bs rule: b64_sextets.induct) auto

lemma b64_sextets_length_pad:
  "length (b64_sextets bs) mod 4 = (if length bs mod 3 = 1 then 2 else if length bs mod 3 = 2 then 3 else 0)"
  by (induction bs rule: b64_sextets.induct) auto

lemma b64_sextets_Nil: "b64_sextets bs = [] \<longleftrightarrow> bs = []"
  by (cases bs rule: b64_sextets.cases) auto

lemma last_sextet_char:
  assumes "\<forall>s\<in>set ss. s < 64" "ss \<noteq> []"
  shows "last (map b64_char ss) \<noteq> CHR ''=''"
proof -
  have "last ss \<in> set ss" using assms(2) by simp
  then have "last ss < 64" using assms(1) by blast
  then show ?thesis using assms(2) by (simp add: last_map b64_char_not_pad)
qed

lemma strip_padding_encode:
  assumes "\<forall>b\<in>set bs. b < 256"
  shows "strip_padding (b64_encode bs) = map b64_char (b64_sextets bs)"
proof -
  let ?ss = "b64_sextets bs"
  let ?cs = "map b64_char ?ss"
  have bound: "\<forall>s\<in>set ?ss. s < 64" using assms by (rule b64_sextets_bound)
  have len: "length ?ss mod 4 = (if length bs mod 3 = 1 then 2 else if length bs mod 3 = 2 then 3 else 0)"
    by (rule b64_sextets_length_pad)
  consider (one) "length bs mod 3 = 1" | (two) "length bs mod 3 = 2" | (zero) "length bs mod 3 = 0"
    by linarith
  then show ?thesis
  proof cases
    case one
    then have ne: "?ss \<noteq> []" using len by auto
    have l: "length (?cs @ ''=='') mod 4 = 0" using len one by (simp add: mod_Suc)
    have "strip_padding (?cs @ ''=='') = ?cs"
      using l last_sextet_char [OF bound ne] ne
      by (simp add: strip_padding_def butlast_append)
    then show ?thesis using one by (simp add: b64_encode_split b64_padding_def)
  next
    case two
    then have ne: "?ss \<noteq> []" using len by auto
    have l: "length (?cs @ ''='') mod 4 = 0" using len two by (simp add: mod_Suc)
    have "strip_padding (?cs @ ''='') = ?cs"
      using l last_sextet_char [OF bound ne] ne
      by (simp add: strip_padding_def butlast_append)
    then show ?thesis using two by (simp add: b64_encode_split b64_padding_def)
  next
    case zero
    have "strip_padding ?cs = ?cs"
    proof (cases "?ss = []")
      case True
      then show ?thesis by (simp add: strip_padding_def)
    next
      case False
      then show ?thesis using last_sextet_char [OF bound False]
        by (simp add: strip_padding_def)
    qed
    then show ?thesis using zero by (simp add: b64_encode_split b64_padding_def)
  qed
qed

lemma filter_ws_encode:
  assumes "\<forall>b\<in>set bs. b < 256"
  shows "filter (\<lambda>c. \<not> is_ascii_whitespace c) (b64_encode bs) = b64_encode bs"
proof -
  have "\<forall>s\<in>set (b64_sextets bs). s < 64" using assms by (rule b64_sextets_bound)
  then have "\<forall>c\<in>set (b64_encode bs). \<not> is_ascii_whitespace c"
    by (auto simp: b64_encode_split b64_padding_def b64_char_not_ws pad_not_ws)
  then show ?thesis by (simp add: filter_id_conv)
qed

lemma atob_encode:
  assumes "\<forall>b\<in>set bs. b < 256"
  shows "atob (b64_encode bs) = Inr (map char_of bs)"
proof -
  let ?ss = "b64_sextets bs"
  have bound: "\<forall>s\<in>set ?ss. s < 64" using assms by (rule b64_sextets_bound)
  have vals: "map (\<lambda>c. the (b64_value c)) (map b64_char ?ss) = ?ss"
    using bound by (simp add: map_idI b64_value_char)
  have ok: "\<not> list_ex (\<lambda>c. b64_value c = None) (map b64_char ?ss)"
    using bound by (auto simp: list_ex_iff b64_value_char)
  show ?thesis
    using ok vals b64_sextets_length [of bs] b64_decode_sextets [OF assms]
    by (simp add: atob_def filter_ws_encode [OF assms] strip_padding_encode [OF assms]
        Let_def)
qed

lemma byte_of_char_of:
  "(of_nat (of_char (char_of (unat b))) :: 8 word) = b"
proof -
  have "unat b < 256" using unsigned_less [of b, where ?'a = nat] by simp
  then show ?thesis by simp
qed

lemma base64_decode_encode:
  "base64ToArrayBuffer (arrayBufferToBase64 bytes) = Inr bytes"
proof -
  let ?bs = "map (of_char :: char \<Rightarrow> nat) (map (\<lambda>b. char_of (unat b)) bytes)"
  have small: "\<forall>b\<in>set ?bs. b < 256" by auto
  have "atob (arrayBufferToBase64 bytes) = Inr (map char_of ?bs)"
    unfolding arrayBufferToBase64_def btoa_def by (rule atob_encode [OF small])
  moreover have "map (\<lambda>c. (of_nat (of_char c) :: 8 word)) (map char_of ?bs) = bytes"
    by (simp add: comp_def byte_of_char_of del: of_char_of)
  ultimately show ?thesis by (simp add: base64ToArrayBuffer_def)
qed

text \<open>
  C9. Decoding the encoding of a byte sequence gives the byte sequence back, for every
  byte sequence, the empty one included; the decoder does not throw on it.
\<close>

theorem base64_roundtrip:
  "base64ToArrayBuffer (arrayBufferToBase64 bytes) = Inr bytes"
  by (rule base64_decode_encode)

section \<open>Message encryption: properties\<close>

subsection \<open>Galois/Counter mode\<close>

lemma length_bytes_of_block: "length (bytes_of_block w) = 16"
  by (simp add: bytes_of_block_def)

lemma length_concat_blocks:
  "length (concat (map (\<lambda>i. bytes_of_block (f i)) [0..<m])) = 16 * m"
  by (induction m) (simp_all add: length_bytes_of_block)

lemma length_keystream: "length (keystream E icb n) = n"
proof -
  have "n \<le> 16 * ((n + 15) div 16)" by presburger
  then show ?thesis by (simp add: keystream_def length_concat_blocks)
qed

lemma xor_bytes_twice:
  "length ks = length xs \<Longrightarrow> xor_bytes (xor_bytes xs ks) ks = xs"
proof (induction xs arbitrary: ks)
  case Nil
  then show ?case by (simp add: xor_bytes_def)
next
  case (Cons x xs)
  then obtain k ks' where ks: "ks = k # ks'" by (cases ks) auto
  with Cons have "xor_bytes (xor_bytes xs ks') ks' = xs" by simp
  then show ?case using ks by (simp add: xor_bytes_def xor.assoc)
qed

lemma length_xor_bytes: "length ks = length xs \<Longrightarrow> length (xor_bytes xs ks) = length xs"
  by (simp add: xor_bytes_def)

lemma length_gctr: "length (gctr E icb xs) = length xs"
  by (simp add: gctr_def length_xor_bytes length_keystream)

lemma gctr_twice: "gctr E icb (gctr E icb xs) = xs"
  by (simp add: gctr_def length_xor_bytes length_keystream xor_bytes_twice)

lemma length_gcm_tag: "length (gcm_tag E nonce_bytes aad c) = 16"
  by (simp add: gcm_tag_def Let_def length_bytes_of_block)

lemma gcm_decrypt_encrypt:
  "gcm_decrypt E nonce_bytes aad' (gcm_encrypt E nonce_bytes aad p) =
     (if gcm_tag E nonce_bytes aad' (gctr E (inc32 (gcm_j0 (E 0) nonce_bytes)) p)
           = gcm_tag E nonce_bytes aad (gctr E (inc32 (gcm_j0 (E 0) nonce_bytes)) p)
      then Some p else None)"
  by (simp add: gcm_decrypt_def gcm_encrypt_def Let_def length_gcm_tag gctr_twice)

lemma gcm_roundtrip:
  "gcm_decrypt E nonce_bytes aad (gcm_encrypt E nonce_bytes aad p) = Some p"
  by (simp add: gcm_decrypt_encrypt)

text \<open>
  The hash is linear: the product in the field is additive in its first factor, and so
  the hash of the XOR of two inputs of one length is the XOR of their hashes. Two tags
  over the same ciphertext agree exactly when the hashes do.
\<close>

lemma fold_gf_step_xor:
  "fold (gf_step (x XOR x')) js (z XOR z', v) =
     (fst (fold (gf_step x) js (z, v)) XOR fst (fold (gf_step x') js (z', v)),
      snd (fold (gf_step x) js (z, v)))
   \<and> snd (fold (gf_step x') js (z', v)) = snd (fold (gf_step x) js (z, v))"
proof (induction js arbitrary: z z' v)
  case Nil
  then show ?case by simp
next
  case (Cons i js)
  define T where "T = (if bit v 0 then drop_bit 1 v XOR push_bit 120 0xE1 else drop_bit 1 v)"
  define a where "a = (if bit x (127 - i) then z XOR v else z)"
  define b where "b = (if bit x' (127 - i) then z' XOR v else z')"
  have s1: "gf_step x i (z, v) = (a, T)" by (simp add: a_def T_def)
  have s2: "gf_step x' i (z', v) = (b, T)" by (simp add: b_def T_def)
  have s3: "gf_step (x XOR x') i (z XOR z', v) = (a XOR b, T)"
    by (simp add: a_def b_def T_def bit_xor_iff ac_simps)
  show ?case unfolding fold_simps(2) s1 s2 s3 by (rule Cons.IH)
qed

lemma gf_mult_xor: "gf_mult (x XOR x') y = gf_mult x y XOR gf_mult x' y"
  using fold_gf_step_xor [of x x' "[0..<128]" 0 0 y] by (simp add: gf_mult_def)

lemma gf_mult_zero: "gf_mult 0 y = 0"
  using gf_mult_xor [of 0 0 y] by simp

lemma byte_step_xor:
  "(push_bit 8 a OR ucast x) XOR (push_bit 8 b OR ucast y)
     = push_bit 8 (a XOR b) OR (ucast (x XOR y) :: 128 word)"
  for x y :: "8 word"
  by (rule bit_eqI) (auto simp: bit_simps dest: bit_imp_le_length)

lemma foldl_block_xor:
  "length xs = length ys \<Longrightarrow>
   foldl (\<lambda>acc b. push_bit 8 acc OR ucast b) (a XOR a') (map2 (XOR) xs ys)
     = foldl (\<lambda>acc b. push_bit 8 acc OR ucast b) (a :: 128 word) (xs :: 8 word list)
       XOR foldl (\<lambda>acc b. push_bit 8 acc OR ucast b) a' ys"
proof (induction xs ys arbitrary: a a' rule: list_induct2)
  case Nil
  then show ?case by simp
next
  case (Cons x xs y ys)
  show ?case using Cons.IH [of "push_bit 8 a OR ucast x" "push_bit 8 a' OR ucast y"]
    by (simp add: byte_step_xor)
qed

lemma block_of_bytes_xor:
  "length xs = length ys \<Longrightarrow>
   block_of_bytes (xor_bytes xs ys) = block_of_bytes xs XOR block_of_bytes ys"
  using foldl_block_xor [of xs ys 0 0] by (simp add: block_of_bytes_def xor_bytes_def)

lemma map2_map_map: "map2 h (map f xs) (map g xs) = map (\<lambda>x. h (f x) (g x)) xs"
  by (induction xs) simp_all

lemma take_drop_xor_bytes:
  "take n (drop k (xor_bytes xs ys)) = xor_bytes (take n (drop k xs)) (take n (drop k ys))"
  by (simp add: xor_bytes_def take_map drop_map take_zip drop_zip)

lemma blocks16_xor:
  "length xs = length ys \<Longrightarrow>
   blocks16 (xor_bytes xs ys) = map2 (XOR) (blocks16 xs) (blocks16 ys)"
  by (simp add: blocks16_def map2_map_map take_drop_xor_bytes block_of_bytes_xor
      length_xor_bytes)

lemma foldl_ghash_xor:
  "length bs = length bs' \<Longrightarrow>
   foldl (ghash_step h) (y XOR y') (map2 (XOR) bs bs')
     = foldl (ghash_step h) y bs XOR foldl (ghash_step h) y' bs'"
proof (induction bs bs' arbitrary: y y' rule: list_induct2)
  case Nil
  then show ?case by simp
next
  case (Cons b bs b' bs')
  have "ghash_step h (y XOR y') (b XOR b') = ghash_step h y b XOR ghash_step h y' b'"
    by (simp add: ghash_step_def gf_mult_xor [symmetric] ac_simps)
  then show ?case using Cons.IH [of "ghash_step h y b" "ghash_step h y' b'"] by simp
qed

lemma ghash_xor:
  "length xs = length ys \<Longrightarrow> ghash h (xor_bytes xs ys) = ghash h xs XOR ghash h ys"
  using foldl_ghash_xor [of "blocks16 xs" "blocks16 ys" h 0 0]
  by (simp add: ghash_def blocks16_xor) (simp add: blocks16_def)

lemma bytes_of_block_inj: "bytes_of_block w = bytes_of_block w' \<longleftrightarrow> w = w'"
proof
  assume eq: "bytes_of_block w = bytes_of_block w'"
  then have bytes: "\<And>i. i < 16 \<Longrightarrow>
      (ucast (drop_bit (8 * (15 - i)) w) :: 8 word) = ucast (drop_bit (8 * (15 - i)) w')"
    by (simp add: bytes_of_block_def)
  show "w = w'"
  proof (rule bit_eqI)
    fix n
    assume "possible_bit TYPE(128 word) n"
    then have n: "n < 128" by simp
    define K where "K = 8 * (15 - (15 - n div 8))"
    have i: "15 - n div 8 < 16" by simp
    have k: "K + n mod 8 = n" using n by (simp add: K_def)
    have b: "bit (ucast (drop_bit K u) :: 8 word) (n mod 8) = bit u n" for u :: "128 word"
    proof -
      have "bit (ucast (drop_bit K u) :: 8 word) (n mod 8) = bit u (K + n mod 8)"
        by (simp add: bit_simps)
      then show ?thesis by (simp only: k)
    qed
    have "(ucast (drop_bit K w) :: 8 word) = ucast (drop_bit K w')"
      using bytes [OF i] by (simp only: K_def)
    then have "bit (ucast (drop_bit K w) :: 8 word) (n mod 8)
        = bit (ucast (drop_bit K w') :: 8 word) (n mod 8)"
      by simp
    then show "bit w n = bit w' n" by (simp only: b)
  qed
next
  assume "w = w'"
  then show "bytes_of_block w = bytes_of_block w'" by simp
qed

lemma xor_right_cancel: "a XOR c = b XOR c \<longleftrightarrow> a = b" for a b c :: "128 word"
proof
  assume "a XOR c = b XOR c"
  then have "(a XOR c) XOR c = (b XOR c) XOR c" by simp
  then show "a = b" by (simp add: xor.assoc)
next
  assume "a = b"
  then show "a XOR c = b XOR c" by simp
qed

lemma xor_eq_zero: "a XOR b = 0 \<longleftrightarrow> a = b" for a b :: "128 word"
  using xor_right_cancel [of a b b] by simp

lemma gcm_tag_eq_iff:
  "gcm_tag E nonce_bytes a c = gcm_tag E nonce_bytes a' c \<longleftrightarrow>
     ghash (E 0) (pad16 a @ pad16 c @ len64 (length a) @ len64 (length c))
       = ghash (E 0) (pad16 a' @ pad16 c @ len64 (length a') @ len64 (length c))"
  by (simp add: gcm_tag_def Let_def bytes_of_block_inj xor_right_cancel)

lemma xor_bytes_self: "xor_bytes xs xs = replicate (length xs) 0"
  by (induction xs) (simp_all add: xor_bytes_def)

lemma xor_bytes_append:
  "length a = length a' \<Longrightarrow> xor_bytes (a @ b) (a' @ b') = xor_bytes a a' @ xor_bytes b b'"
  by (simp add: xor_bytes_def)

lemma length_pad16: "length (pad16 bs) = length bs + (16 - length bs mod 16) mod 16"
  by (simp add: pad16_def)

lemma pad16_xor:
  "length a = length a' \<Longrightarrow> xor_bytes (pad16 a) (pad16 a') = pad16 (xor_bytes a a')"
  by (simp add: pad16_def xor_bytes_append xor_bytes_self length_xor_bytes)

lemma length_len64: "length (len64 n) = 8"
  by (simp add: len64_def)

lemma hashed_difference:
  assumes "length a = length a'"
  shows "xor_bytes (pad16 a @ pad16 c @ len64 (length a) @ len64 (length c))
           (pad16 a' @ pad16 c @ len64 (length a') @ len64 (length c))
         = pad16 (xor_bytes a a') @ replicate (length (pad16 c) + 16) 0"
proof -
  have l: "length (pad16 a) = length (pad16 a')" using assms by (simp add: length_pad16)
  have "xor_bytes (pad16 a @ pad16 c @ len64 (length a) @ len64 (length c))
           (pad16 a' @ pad16 c @ len64 (length a') @ len64 (length c))
      = xor_bytes (pad16 a) (pad16 a')
          @ xor_bytes (pad16 c @ len64 (length a) @ len64 (length c))
              (pad16 c @ len64 (length a') @ len64 (length c))"
    by (rule xor_bytes_append [OF l])
  also have "\<dots> = pad16 (xor_bytes a a')
      @ replicate (length (pad16 c @ len64 (length a) @ len64 (length c))) 0"
    using assms by (simp add: pad16_xor xor_bytes_self)
  also have "\<dots> = pad16 (xor_bytes a a') @ replicate (length (pad16 c) + 16) 0"
    by (simp add: length_len64)
  finally show ?thesis .
qed

lemma ghash_eq_difference:
  assumes "length a = length a'"
  shows "ghash h (pad16 a @ pad16 c @ len64 (length a) @ len64 (length c))
           = ghash h (pad16 a' @ pad16 c @ len64 (length a') @ len64 (length c))
         \<longleftrightarrow> ghash h (pad16 (xor_bytes a a') @ replicate (length (pad16 c) + 16) 0) = 0"
proof -
  have l: "length (pad16 a @ pad16 c @ len64 (length a) @ len64 (length c))
      = length (pad16 a' @ pad16 c @ len64 (length a') @ len64 (length c))"
    using assms by (simp add: length_pad16 length_len64)
  show ?thesis
    unfolding hashed_difference [OF assms, symmetric] ghash_xor [OF l] xor_eq_zero ..
qed

subsection \<open>UTF-8 encoding and decoding\<close>

lemma utf8_bytes_small: "cp < 0x110000 \<Longrightarrow> \<forall>b\<in>set (utf8_bytes cp). b < 256"
  by (auto simp: utf8_bytes_def)

lemma dec_ascii:
  "b < 0x80 \<Longrightarrow> utf8_decode cp 0 lo hi (b # bs) = b # utf8_decode 0 0 0x80 0xBF bs"
  by (subst utf8_decode.simps) simp

lemma dec_lead2:
  "0xC2 \<le> b \<Longrightarrow> b \<le> 0xDF \<Longrightarrow>
   utf8_decode cp 0 lo hi (b # bs) = utf8_decode (b mod 32) 1 0x80 0xBF bs"
  by (subst utf8_decode.simps) simp

lemma dec_lead3:
  "0xE0 \<le> b \<Longrightarrow> b \<le> 0xEF \<Longrightarrow>
   utf8_decode cp 0 lo hi (b # bs) =
     utf8_decode (b mod 16) 2 (if b = 0xE0 then 0xA0 else 0x80) (if b = 0xED then 0x9F else 0xBF) bs"
  by (subst utf8_decode.simps) simp

lemma dec_lead4:
  "0xF0 \<le> b \<Longrightarrow> b \<le> 0xF4 \<Longrightarrow>
   utf8_decode cp 0 lo hi (b # bs) =
     utf8_decode (b mod 8) 3 (if b = 0xF0 then 0x90 else 0x80) (if b = 0xF4 then 0x8F else 0xBF) bs"
  by (subst utf8_decode.simps) simp

lemma dec_cont_last:
  "lo \<le> b \<Longrightarrow> b \<le> hi \<Longrightarrow>
   utf8_decode cp (Suc 0) lo hi (b # bs) = (cp * 64 + b mod 64) # utf8_decode 0 0 0x80 0xBF bs"
  by (subst utf8_decode.simps) simp

lemma dec_cont:
  "lo \<le> b \<Longrightarrow> b \<le> hi \<Longrightarrow> 1 < needed \<Longrightarrow>
   utf8_decode cp needed lo hi (b # bs) = utf8_decode (cp * 64 + b mod 64) (needed - 1) 0x80 0xBF bs"
  by (subst utf8_decode.simps) simp

lemma add_mod_cancel: "x < m \<Longrightarrow> (q * m + x) mod m = (x::nat)"
  by simp

lemma cont_byte_mod: "(0x80 + x mod 64) mod 64 = (x::nat) mod 64"
  using add_mod_cancel [of "x mod 64" 64 2] by simp

lemma recompose3: "((cp::nat) div 4096 * 64 + (cp div 64) mod 64) * 64 + cp mod 64 = cp"
proof -
  have "cp div 4096 = (cp div 64) div 64" by (simp add: div_mult2_eq)
  then have "cp div 4096 * 64 + (cp div 64) mod 64 = cp div 64" by simp
  then show ?thesis by simp
qed

lemma recompose4:
  "(((cp::nat) div 262144 * 64 + (cp div 4096) mod 64) * 64 + (cp div 64) mod 64) * 64 + cp mod 64 = cp"
proof -
  have "cp div 262144 = (cp div 4096) div 64" by (simp add: div_mult2_eq)
  then have a: "cp div 262144 * 64 + (cp div 4096) mod 64 = cp div 4096" by simp
  have "cp div 4096 = (cp div 64) div 64" by (simp add: div_mult2_eq)
  then have "cp div 4096 * 64 + (cp div 64) mod 64 = cp div 64" by simp
  then show ?thesis by (simp add: a)
qed

lemma second_of_three:
  assumes "0x800 \<le> (cp::nat)" "cp < 0x10000" "\<not> (0xD800 \<le> cp \<and> cp \<le> 0xDFFF)"
  shows "(cp div 4096 = 0 \<longrightarrow> 32 \<le> (cp div 64) mod 64)
       \<and> (cp div 4096 = 13 \<longrightarrow> (cp div 64) mod 64 < 32)"
proof (intro conjI impI)
  assume z: "cp div 4096 = 0"
  then have "cp < 4096" by simp
  then have "cp div 64 < 64" by simp
  moreover have "32 \<le> cp div 64" using assms(1) by simp
  ultimately show "32 \<le> (cp div 64) mod 64" by simp
next
  assume d: "cp div 4096 = 13"
  have "cp div 4096 = (cp div 64) div 64" by (simp add: div_mult2_eq)
  then have e: "cp div 64 = 13 * 64 + (cp div 64) mod 64" using d
    by (metis div_mult_mod_eq)
  have "cp div 4096 < 14" using d by simp
  then have "cp < 57344" by (simp add: div_less_iff_less_mult)
  then have "cp < 55296" using assms(3) by linarith
  then have "cp div 64 < 864" by simp
  with e show "(cp div 64) mod 64 < 32" by linarith
qed

lemma second_of_four:
  assumes "0x10000 \<le> (cp::nat)" "cp < 0x110000"
  shows "(cp div 262144 = 0 \<longrightarrow> 16 \<le> (cp div 4096) mod 64)
       \<and> (cp div 262144 = 4 \<longrightarrow> (cp div 4096) mod 64 < 16)"
proof (intro conjI impI)
  assume z: "cp div 262144 = 0"
  then have "cp < 262144" by simp
  then have "cp div 4096 < 64" by simp
  moreover have "16 \<le> cp div 4096" using assms(1) by simp
  ultimately show "16 \<le> (cp div 4096) mod 64" by simp
next
  assume d: "cp div 262144 = 4"
  have "cp div 262144 = (cp div 4096) div 64" by (simp add: div_mult2_eq)
  then have e: "cp div 4096 = 4 * 64 + (cp div 4096) mod 64" using d
    by (metis div_mult_mod_eq)
  have "cp div 4096 < 272" using assms(2) by simp
  with e show "(cp div 4096) mod 64 < 16" by linarith
qed

lemma decode_one:
  assumes "cp < 0x80"
  shows "utf8_decode 0 0 0x80 0xBF (utf8_bytes cp @ bs) = cp # utf8_decode 0 0 0x80 0xBF bs"
  using assms by (simp add: utf8_bytes_def dec_ascii)

lemma decode_two:
  assumes "0x80 \<le> cp" "cp < 0x800"
  shows "utf8_decode 0 0 0x80 0xBF (utf8_bytes cp @ bs) = cp # utf8_decode 0 0 0x80 0xBF bs"
proof -
  have d: "2 \<le> cp div 64" "cp div 64 < 32" using assms by auto
  have m: "(0xC0 + cp div 64) mod 32 = cp div 64"
    using add_mod_cancel [of "cp div 64" 32 6] d by simp
  have "utf8_decode 0 0 0x80 0xBF ((0xC0 + cp div 64) # (0x80 + cp mod 64) # bs)
        = utf8_decode (cp div 64) 1 0x80 0xBF ((0x80 + cp mod 64) # bs)"
    using d m by (simp add: dec_lead2)
  also have "\<dots> = (cp div 64 * 64 + cp mod 64) # utf8_decode 0 0 0x80 0xBF bs"
    by (simp add: dec_cont_last cont_byte_mod)
  finally show ?thesis using assms by (simp add: utf8_bytes_def)
qed

lemma decode_three:
  assumes "0x800 \<le> cp" "cp < 0x10000" "\<not> (0xD800 \<le> cp \<and> cp \<le> 0xDFFF)"
  shows "utf8_decode 0 0 0x80 0xBF (utf8_bytes cp @ bs) = cp # utf8_decode 0 0 0x80 0xBF bs"
proof -
  define a where "a = cp div 4096"
  define b where "b = (cp div 64) mod 64"
  define c where "c = cp mod 64"
  have a: "a < 16" using assms by (simp add: a_def)
  have b: "b < 64" by (simp add: b_def)
  have c: "c < 64" by (simp add: c_def)
  have ma: "(0xE0 + a) mod 16 = a" using add_mod_cancel [of a 16 14] a by simp
  have mb: "(0x80 + b) mod 64 = b" using add_mod_cancel [of b 64 2] b by simp
  have mc: "(0x80 + c) mod 64 = c" using add_mod_cancel [of c 64 2] c by simp
  have lo: "a = 0 \<Longrightarrow> 32 \<le> b" and hi: "a = 13 \<Longrightarrow> b < 32"
    using second_of_three [OF assms] by (simp_all add: a_def b_def)
  have bytes: "utf8_bytes cp = [0xE0 + a, 0x80 + b, 0x80 + c]"
    using assms by (simp add: utf8_bytes_def a_def b_def c_def)
  have s1: "utf8_decode 0 0 0x80 0xBF ((0xE0 + a) # (0x80 + b) # (0x80 + c) # bs)
        = utf8_decode a 2 (if a = 0 then 0xA0 else 0x80) (if a = 13 then 0x9F else 0xBF)
            ((0x80 + b) # (0x80 + c) # bs)"
    using a by (simp add: dec_lead3 ma)
  have s2: "utf8_decode a 2 (if a = 0 then 0xA0 else 0x80) (if a = 13 then 0x9F else 0xBF)
            ((0x80 + b) # (0x80 + c) # bs)
        = utf8_decode (a * 64 + b) 1 0x80 0xBF ((0x80 + c) # bs)"
    using lo hi b by (subst dec_cont) (auto simp: mb)
  have s3: "utf8_decode (a * 64 + b) 1 0x80 0xBF ((0x80 + c) # bs)
        = ((a * 64 + b) * 64 + c) # utf8_decode 0 0 0x80 0xBF bs"
    using c by (simp add: dec_cont_last mc)
  have eq: "(a * 64 + b) * 64 + c = cp"
    unfolding a_def b_def c_def by (rule recompose3)
  have "utf8_decode 0 0 0x80 0xBF (utf8_bytes cp @ bs)
        = ((a * 64 + b) * 64 + c) # utf8_decode 0 0 0x80 0xBF bs"
    unfolding bytes append_Cons append_Nil by (rule trans [OF s1 trans [OF s2 s3]])
  then show ?thesis unfolding eq .
qed

lemma decode_four:
  assumes "0x10000 \<le> cp" "cp < 0x110000"
  shows "utf8_decode 0 0 0x80 0xBF (utf8_bytes cp @ bs) = cp # utf8_decode 0 0 0x80 0xBF bs"
proof -
  define a where "a = cp div 262144"
  define b where "b = (cp div 4096) mod 64"
  define c where "c = (cp div 64) mod 64"
  define d where "d = cp mod 64"
  have a: "a < 5" using assms by (simp add: a_def)
  have b: "b < 64" by (simp add: b_def)
  have c: "c < 64" by (simp add: c_def)
  have d: "d < 64" by (simp add: d_def)
  have ma: "(0xF0 + a) mod 8 = a" using add_mod_cancel [of a 8 30] a by simp
  have mb: "(0x80 + b) mod 64 = b" using add_mod_cancel [of b 64 2] b by simp
  have mc: "(0x80 + c) mod 64 = c" using add_mod_cancel [of c 64 2] c by simp
  have md: "(0x80 + d) mod 64 = d" using add_mod_cancel [of d 64 2] d by simp
  have lo: "a = 0 \<Longrightarrow> 16 \<le> b" and hi: "a = 4 \<Longrightarrow> b < 16"
    using second_of_four [OF assms] by (simp_all add: a_def b_def)
  have bytes: "utf8_bytes cp = [0xF0 + a, 0x80 + b, 0x80 + c, 0x80 + d]"
    using assms by (simp add: utf8_bytes_def a_def b_def c_def d_def)
  have s1: "utf8_decode 0 0 0x80 0xBF ((0xF0 + a) # (0x80 + b) # (0x80 + c) # (0x80 + d) # bs)
        = utf8_decode a 3 (if a = 0 then 0x90 else 0x80) (if a = 4 then 0x8F else 0xBF)
            ((0x80 + b) # (0x80 + c) # (0x80 + d) # bs)"
    using a by (simp add: dec_lead4 ma)
  have s2: "utf8_decode a 3 (if a = 0 then 0x90 else 0x80) (if a = 4 then 0x8F else 0xBF)
            ((0x80 + b) # (0x80 + c) # (0x80 + d) # bs)
        = utf8_decode (a * 64 + b) 2 0x80 0xBF ((0x80 + c) # (0x80 + d) # bs)"
    using lo hi b by (subst dec_cont) (auto simp: mb)
  have s3: "utf8_decode (a * 64 + b) 2 0x80 0xBF ((0x80 + c) # (0x80 + d) # bs)
        = utf8_decode ((a * 64 + b) * 64 + c) 1 0x80 0xBF ((0x80 + d) # bs)"
    using c by (subst dec_cont) (auto simp: mc)
  have s4: "utf8_decode ((a * 64 + b) * 64 + c) 1 0x80 0xBF ((0x80 + d) # bs)
        = (((a * 64 + b) * 64 + c) * 64 + d) # utf8_decode 0 0 0x80 0xBF bs"
    using d by (simp add: dec_cont_last md)
  have eq: "((a * 64 + b) * 64 + c) * 64 + d = cp"
    unfolding a_def b_def c_def d_def by (rule recompose4)
  have "utf8_decode 0 0 0x80 0xBF (utf8_bytes cp @ bs)
        = (((a * 64 + b) * 64 + c) * 64 + d) # utf8_decode 0 0 0x80 0xBF bs"
    unfolding bytes append_Cons append_Nil
    by (rule trans [OF s1 trans [OF s2 trans [OF s3 s4]]])
  then show ?thesis unfolding eq .
qed

lemma decode_scalar:
  assumes "is_scalar cp"
  shows "utf8_decode 0 0 0x80 0xBF (utf8_bytes cp @ bs) = cp # utf8_decode 0 0 0x80 0xBF bs"
proof -
  consider "cp < 0x80" | "0x80 \<le> cp \<and> cp < 0x800" | "0x800 \<le> cp \<and> cp < 0x10000"
    | "0x10000 \<le> cp" by linarith
  then show ?thesis
  proof cases
    case 1 then show ?thesis by (rule decode_one)
  next
    case 2 then show ?thesis by (simp add: decode_two)
  next
    case 3 then show ?thesis using assms by (intro decode_three) (auto simp: is_scalar_def)
  next
    case 4 then show ?thesis using assms by (intro decode_four) (auto simp: is_scalar_def)
  qed
qed

lemma decode_scalars:
  "\<forall>cp\<in>set cps. is_scalar cp \<Longrightarrow>
   utf8_decode 0 0 0x80 0xBF (concat (map utf8_bytes cps)) = cps"
  by (induction cps) (simp_all add: decode_scalar utf8_decode.simps)

lemma unat16_less: "unat (c :: 16 word) < 65536"
  using unsigned_less [of c, where ?'a = nat] by simp

lemma pair_scalar:
  assumes "is_lead_surrogate c" "is_trail_surrogate d"
  shows "is_scalar (0x10000 + (unat c - 0xD800) * 0x400 + (unat d - 0xDC00))"
proof -
  define x where "x = unat c - 0xD800"
  define y where "y = unat d - 0xDC00"
  have "x < 0x400" using assms(1) unfolding x_def is_lead_surrogate_def by linarith
  moreover have "y < 0x400" using assms(2) unfolding y_def is_trail_surrogate_def by linarith
  ultimately have "0x10000 + x * 0x400 + y < 0x110000" by linarith
  then show ?thesis unfolding x_def y_def is_scalar_def by linarith
qed

lemma unit_scalar:
  "is_scalar (if is_lead_surrogate c \<or> is_trail_surrogate c then 0xFFFD else unat c)"
proof (cases "is_lead_surrogate c \<or> is_trail_surrogate c")
  case True
  then show ?thesis by (simp add: is_scalar_def)
next
  case False
  then have "\<not> (0xD800 \<le> unat c \<and> unat c \<le> 0xDFFF)"
    unfolding is_lead_surrogate_def is_trail_surrogate_def by linarith
  then show ?thesis using False unat16_less [of c] by (simp add: is_scalar_def)
qed

lemma to_scalar_values_scalar: "\<forall>cp\<in>set (to_scalar_values s). is_scalar cp"
proof (induction s rule: to_scalar_values.induct)
  case 1
  then show ?case by simp
next
  case (2 c)
  then show ?case using unit_scalar [of c] by simp
next
  case (3 c d rest)
  show ?case
  proof (cases "is_lead_surrogate c \<and> is_trail_surrogate d")
    case True
    then show ?thesis using 3(1) pair_scalar [of c d] by simp
  next
    case False
    then have "to_scalar_values (c # d # rest) =
        (if is_lead_surrogate c \<or> is_trail_surrogate c then 0xFFFD else unat c)
          # to_scalar_values (d # rest)"
      by auto
    then show ?thesis using 3(2) [OF False] unit_scalar [of c] by simp
  qed
qed

lemma bytes_unat_of_nat:
  "\<forall>b\<in>set bs. b < 256 \<Longrightarrow> map unat (map (of_nat :: nat \<Rightarrow> 8 word) bs) = bs"
  by (induction bs) (simp_all add: unat_of_nat)

lemma utf8_bytes_all_small:
  "\<forall>cp\<in>set cps. is_scalar cp \<Longrightarrow> \<forall>b\<in>set (concat (map utf8_bytes cps)). b < 256"
  using utf8_bytes_small by (auto simp: is_scalar_def)

lemma decode_encode_scalars:
  "TextDecoder_decode (TextEncoder_encode s) =
     concat (map utf16_units (strip_bom (to_scalar_values s)))"
proof -
  have sc: "\<forall>cp\<in>set (to_scalar_values s). is_scalar cp" by (rule to_scalar_values_scalar)
  have "map unat (TextEncoder_encode s) = concat (map utf8_bytes (to_scalar_values s))"
    unfolding TextEncoder_encode_def
    by (rule bytes_unat_of_nat) (rule utf8_bytes_all_small [OF sc])
  then show ?thesis
    by (simp add: TextDecoder_decode_def decode_scalars [OF sc])
qed

lemma utf16_pair:
  assumes "is_lead_surrogate c" "is_trail_surrogate d"
  shows "utf16_units (0x10000 + (unat c - 0xD800) * 0x400 + (unat d - 0xDC00)) = [c, d]"
proof -
  define x where "x = unat c - 0xD800"
  define y where "y = unat d - 0xDC00"
  have y: "y < 0x400" using assms(2) unfolding y_def is_trail_surrogate_def by linarith
  have c: "0xD800 + x = unat c" using assms(1) unfolding x_def is_lead_surrogate_def by linarith
  have d: "0xDC00 + y = unat d" using assms(2) unfolding y_def is_trail_surrogate_def by linarith
  have dv: "(x * 0x400 + y) div 0x400 = x" using y by simp
  have md: "(x * 0x400 + y) mod 0x400 = y" using y by simp
  have "utf16_units (0x10000 + x * 0x400 + y) = [of_nat (0xD800 + x), of_nat (0xDC00 + y)]"
    using dv md by (simp add: utf16_units_def)
  then show ?thesis unfolding c d by (simp add: x_def y_def)
qed

lemma utf16_single: "utf16_units (unat (c :: 16 word)) = [c]"
  using unat16_less [of c] by (simp add: utf16_units_def)

lemma well_formed_utf16:
  "well_formed s \<Longrightarrow> concat (map utf16_units (to_scalar_values s)) = s"
proof (induction s rule: to_scalar_values.induct)
  case 1
  then show ?case by simp
next
  case (2 c)
  then show ?case by (simp add: utf16_single)
next
  case (3 c d rest)
  then show ?case by (auto simp: utf16_pair utf16_single split: if_splits)
qed

lemma unat_bom: "unat (c :: 16 word) = 0xFEFF \<Longrightarrow> c = 0xFEFF"
proof -
  assume h: "unat c = 0xFEFF"
  have "of_nat (unat c) = c" by simp
  with h show "c = 0xFEFF" by simp
qed

lemma hd_to_scalar_values:
  assumes "s \<noteq> []" "hd s \<noteq> 0xFEFF"
  shows "hd (to_scalar_values s) \<noteq> 0xFEFF"
proof (cases s rule: to_scalar_values.cases)
  case 1
  then show ?thesis using assms by simp
next
  case (2 c)
  show ?thesis using assms 2 unat_bom [of c] by auto
next
  case (3 c d rest)
  show ?thesis using assms 3 unat_bom [of c] by auto
qed

lemma to_scalar_values_Nil: "to_scalar_values s = [] \<longleftrightarrow> s = []"
  by (cases s rule: to_scalar_values.cases) auto

lemma text_roundtrip:
  assumes "well_formed s" "s = [] \<or> hd s \<noteq> 0xFEFF"
  shows "TextDecoder_decode (TextEncoder_encode s) = s"
proof -
  have "strip_bom (to_scalar_values s) = to_scalar_values s"
    using assms(2) hd_to_scalar_values [of s]
    by (auto simp: strip_bom_def to_scalar_values_Nil)
  then show ?thesis
    by (simp add: decode_encode_scalars well_formed_utf16 [OF assms(1)])
qed

subsection \<open>A worked instance of AES-GCM\<close>

text \<open>
  The hash subkey of the sample key is computed through the key schedule and
  one block of the cipher, and four products in the field with it.
\<close>

lemma fold_Cons_cbv: "fold f (x # xs) s = fold f xs (f x s)"
  by simp

lemma upt_0_3: "[0..<3] = [0, 1, 2]"
  by code_simp

lemma upt_0_4: "[0..<4] = [0, 1, 2, 3]"
  by code_simp

lemma upt_0_16: "[0..<16] = [0, 1, 2, 3, 4, 5, 6, 7, 8, 9, 10, 11, 12, 13, 14, 15]"
  by code_simp

lemma upt_0_8: "[0..<8] = [0, 1, 2, 3, 4, 5, 6, 7]"
  by code_simp

lemma upt_1_14: "[1..<14] = [1, 2, 3, 4, 5, 6, 7, 8, 9, 10, 11, 12, 13]"
  by code_simp

lemma fold_upt_cbv: "fold f [i..<j] s = (if i < j then fold f [i + 1..<j] (f i s) else s)"
  by (subst upt_rec) simp

lemma replicate_unroll: "replicate n x = (if 0 < n then x # replicate (n - 1) x else [])"
  by (cases n) simp_all

lemma rcon_values:
  "rcon 1 = 0x01" "rcon 2 = 0x02" "rcon 3 = 0x04" "rcon 4 = 0x08" "rcon 5 = 0x10"
  "rcon 6 = 0x20" "rcon 7 = 0x40" "rcon 8 = 0x80" "rcon 9 = 0x1B" "rcon 10 = 0x36"
  "rcon (Suc 0) = 0x01"
  by (simp_all add: rcon_def eval_nat_numeral) (simp_all add: xtime_def)

lemma schedule_steps:
  "list_all (\<lambda>i. next_word 8 (take i sample_key_schedule) = sample_key_schedule ! i) [8..<60]"
  by (simp add: sample_key_schedule_def next_word_def Let_def xor_bytes_def sub_byte_def sbox_def
      rcon_values)

lemma expand_steps_take:
  assumes "\<forall>i. n \<le> i \<and> i < n + k \<longrightarrow> next_word Nk (take i W) = W ! i"
      and "n + k \<le> length W"
  shows "(expand_step Nk ^^ k) (take n W) = take (n + k) W"
  using assms
proof (induction k)
  case 0
  then show ?case by simp
next
  case (Suc k)
  then have ih: "(expand_step Nk ^^ k) (take n W) = take (n + k) W" by simp
  have nw: "next_word Nk (take (n + k) W) = W ! (n + k)" using Suc.prems(1) by simp
  have lt: "n + k < length W" using Suc.prems(2) by simp
  have "(expand_step Nk ^^ Suc k) (take n W) = expand_step Nk (take (n + k) W)"
    by (simp add: ih)
  also have "\<dots> = take (n + k) W @ [W ! (n + k)]"
    by (simp add: expand_step_def nw)
  also have "\<dots> = take (n + Suc k) W"
    by (simp add: take_Suc_conv_app_nth [OF lt])
  finally show ?case .
qed

lemma key_expansion_sample: "key_expansion sample_key = sample_key_schedule"
proof -
  have steps: "\<forall>i. 8 \<le> i \<and> i < 8 + 52 \<longrightarrow>
      next_word 8 (take i sample_key_schedule) = sample_key_schedule ! i"
  proof (intro allI impI)
    fix i :: nat
    assume "8 \<le> i \<and> i < 8 + 52"
    then have "i \<in> {8..<60}" by simp
    with schedule_steps show "next_word 8 (take i sample_key_schedule) = sample_key_schedule ! i"
      unfolding list_all_iff set_upt by blast
  qed
  have len: "8 + 52 \<le> length sample_key_schedule" by (simp add: sample_key_schedule_def)
  have first: "map (\<lambda>i. take 4 (drop (4 * i) sample_key)) [0..<8] = take 8 sample_key_schedule"
    unfolding upt_0_8 by (simp add: sample_key_def sample_key_schedule_def)
  have all: "take (8 + 52) sample_key_schedule = sample_key_schedule"
    by (simp add: sample_key_schedule_def)
  have nk: "length sample_key div 4 = 8" "4 * (8 + 7) - 8 = (52 :: nat)" by (simp_all add: sample_key_def)
  show ?thesis
    unfolding key_expansion_def Let_def nk first
    using expand_steps_take [OF steps len] all by simp
qed

lemma sample_cipher_zero:
  "aes_cipher sample_key [0x00, 0x00, 0x00, 0x00, 0x00, 0x00, 0x00, 0x00, 0x00, 0x00, 0x00, 0x00, 0x00, 0x00, 0x00, 0x00]
     = [0xF2, 0x90, 0x00, 0xB6, 0x2A, 0x49, 0x9F, 0xD0, 0xA9, 0xF3, 0x9A, 0x6A, 0xDD, 0x2E, 0x77, 0x80]"
proof -
  have nr: "length sample_key div 4 + 6 = 14" by (simp add: sample_key_def)
  show ?thesis
    unfolding aes_cipher_def Let_def key_expansion_sample nr upt_1_14
    by (simp only: fold_Cons_cbv fold.simps(1) id_apply)
       (simp add: sample_key_schedule_def upt_0_16 upt_0_4 aes_round_def xor_bytes_def
          mix_columns_def shift_rows_def round_key_def sub_byte_def sbox_def xtime_def)
qed

lemma sample_hash_subkey: "aes_block sample_key 0 = 0xF29000B62A499FD0A9F39A6ADD2E7780"
  unfolding aes_block_def
  by (simp add: bytes_of_block_def upt_0_16 sample_cipher_zero) (simp add: block_of_bytes_def)

lemma gf_reduction: "push_bit 120 (0xE1 :: 128 word) = 0xE1000000000000000000000000000000"
  by simp

lemma gf_sample_1:
  "gf_mult 0x03000000000000000000000000000000 0xF29000B62A499FD0A9F39A6ADD2E7780
     = 0x022F6003B4FDB540E3F4295D7ECEE531"
  by (simp add: gf_mult_def fold_upt_cbv gf_reduction del: upt_rec_numeral)

lemma gf_sample_2:
  "gf_mult 0x022F6003B4FDB540E3F4295D7ECEE531 0xF29000B62A499FD0A9F39A6ADD2E7780
     = 0x019C1EEED73579EB708F767D9C53B972"
  by (simp add: gf_mult_def fold_upt_cbv gf_reduction del: upt_rec_numeral)

lemma gf_sample_3:
  "gf_mult 0x019C1EEED73579EB708F767D9C53B972 0xF29000B62A499FD0A9F39A6ADD2E7780
     = 0xB6A455ABCA75230ABFEF136CBE67881F"
  by (simp add: gf_mult_def fold_upt_cbv gf_reduction del: upt_rec_numeral)

lemma gf_sample_collision:
  "gf_mult 0x121E140D1E1A180D121B0202170A0809 0xF29000B62A499FD0A9F39A6ADD2E7780
     = 0x14191A1A151E0D070E17021612060107"
  by (simp add: gf_mult_def fold_upt_cbv gf_reduction del: upt_rec_numeral)

lemma encode_samples:
  "TextEncoder_encode [0x68, 0x69] = [0x68, 0x69]"
  "TextEncoder_encode [0x61] = [0x61]"
  "TextEncoder_encode [0x62] = [0x62]"
  "TextEncoder_encode (js_of_ascii ''XGYBXLUXTOPTTMKHFMHXOUULTOUCDROF'')
     = [0x58, 0x47, 0x59, 0x42, 0x58, 0x4C, 0x55, 0x58, 0x54, 0x4F, 0x50, 0x54, 0x54, 0x4D, 0x4B, 0x48, 0x46, 0x4D, 0x48, 0x58, 0x4F, 0x55, 0x55, 0x4C, 0x54, 0x4F, 0x55, 0x43, 0x44, 0x52, 0x4F, 0x46]"
  "TextEncoder_encode (js_of_ascii ''JYMOFVMUFTRVCGCARTRBZKXKZXWUVTNA'')
     = [0x4A, 0x59, 0x4D, 0x4F, 0x46, 0x56, 0x4D, 0x55, 0x46, 0x54, 0x52, 0x56, 0x43, 0x47, 0x43, 0x41, 0x52, 0x54, 0x52, 0x42, 0x5A, 0x4B, 0x58, 0x4B, 0x5A, 0x58, 0x57, 0x55, 0x56, 0x54, 0x4E, 0x41]"
  by (simp_all add: TextEncoder_encode_def is_lead_surrogate_def is_trail_surrogate_def
      utf8_bytes_def js_of_ascii_def)

text \<open>
  The contexts \<open>a\<close> and \<open>b\<close> differ in their hash under this subkey; the two contexts of
  32 letters do not: the second block of their difference is the first times the subkey.
\<close>

lemma sample_difference_nonzero:
  "ghash (aes_block sample_key 0)
     (pad16 (xor_bytes [0x61] [0x62]) @ replicate (length (pad16 [0x68, 0x69 :: 8 word]) + 16) 0)
     = 0xB6A455ABCA75230ABFEF136CBE67881F"
  unfolding sample_hash_subkey
  by (simp add: ghash_def blocks16_def pad16_def xor_bytes_def replicate_unroll upt_0_3
      block_of_bytes_def ghash_step_def gf_sample_1 gf_sample_2 gf_sample_3)

lemma sample_difference_zero:
  "ghash (aes_block sample_key 0)
     (pad16 (xor_bytes
         [0x58, 0x47, 0x59, 0x42, 0x58, 0x4C, 0x55, 0x58, 0x54, 0x4F, 0x50, 0x54, 0x54, 0x4D, 0x4B, 0x48, 0x46, 0x4D, 0x48, 0x58, 0x4F, 0x55, 0x55, 0x4C, 0x54, 0x4F, 0x55, 0x43, 0x44, 0x52, 0x4F, 0x46]
         [0x4A, 0x59, 0x4D, 0x4F, 0x46, 0x56, 0x4D, 0x55, 0x46, 0x54, 0x52, 0x56, 0x43, 0x47, 0x43, 0x41, 0x52, 0x54, 0x52, 0x42, 0x5A, 0x4B, 0x58, 0x4B, 0x5A, 0x58, 0x57, 0x55, 0x56, 0x54, 0x4E, 0x41])
       @ replicate (length (pad16 [0x68, 0x69 :: 8 word]) + 16) 0)
     = 0"
  unfolding sample_hash_subkey
  by (simp add: ghash_def blocks16_def pad16_def xor_bytes_def replicate_unroll upt_0_4
      block_of_bytes_def ghash_step_def gf_sample_collision gf_mult_zero)

subsection \<open>Encrypting and decrypting a message\<close>

lemma encryptMessage_ok:
  assumes "length key \<in> {16, 24, 32}"
  shows "encryptMessage True P key C random12 random16 =
     Inr \<lparr>ciphertext = arrayBufferToBase64
               (gcm_encrypt (aes_block key) random12 (TextEncoder_encode C) (TextEncoder_encode P)),
          iv = arrayBufferToBase64 random12,
          salt = arrayBufferToBase64 random16,
          algorithm = ''AES-GCM''\<rparr>"
  using assms by (auto simp: encryptMessage_def subtle_encrypt_def Let_def)

lemma decrypt_of_encrypt_tag:
  assumes "length key \<in> {16, 24, 32}"
  shows "decrypt_of_encrypt True P key C1 C2 random12 random16 =
     (if gcm_tag (aes_block key) random12 (TextEncoder_encode C2)
            (gctr (aes_block key) (inc32 (gcm_j0 (aes_block key 0) random12)) (TextEncoder_encode P))
         = gcm_tag (aes_block key) random12 (TextEncoder_encode C1)
            (gctr (aes_block key) (inc32 (gcm_j0 (aes_block key 0) random12)) (TextEncoder_encode P))
      then Inr (TextDecoder_decode (TextEncoder_encode P))
      else Inl (OtherError ''Failed to decrypt message''))"
proof -
  have k: "\<not> length key \<notin> {16, 24, 32}" using assms by simp
  show ?thesis
    unfolding decrypt_of_encrypt_def encryptMessage_ok [OF assms]
    by (simp add: decryptMessage_def base64_decode_encode subtle_decrypt_def k gcm_decrypt_encrypt
        del: insert_iff)
qed

lemma decrypt_of_encrypt_uninitialized:
  "decrypt_of_encrypt False P key C1 C2 random12 random16
     = Inl (OtherError ''Failed to encrypt message'')"
  by (simp add: decrypt_of_encrypt_def encryptMessage_def)

text \<open>
  The outcome of decrypting under another context, through the hash; for encodings of
  one length, through the hash of their difference.
\<close>

lemma decrypt_of_encrypt_hash:
  assumes "length key \<in> {16, 24, 32}"
  shows "decrypt_of_encrypt True P key C1 C2 random12 random16 =
     (if ghash (aes_block key 0)
           (pad16 (TextEncoder_encode C1)
              @ pad16 (gctr (aes_block key) (inc32 (gcm_j0 (aes_block key 0) random12))
                         (TextEncoder_encode P))
              @ len64 (length (TextEncoder_encode C1)) @ len64 (length (TextEncoder_encode P)))
         = ghash (aes_block key 0)
           (pad16 (TextEncoder_encode C2)
              @ pad16 (gctr (aes_block key) (inc32 (gcm_j0 (aes_block key 0) random12))
                         (TextEncoder_encode P))
              @ len64 (length (TextEncoder_encode C2)) @ len64 (length (TextEncoder_encode P)))
      then Inr (TextDecoder_decode (TextEncoder_encode P))
      else Inl (OtherError ''Failed to decrypt message''))"
  unfolding decrypt_of_encrypt_tag [OF assms] gcm_tag_eq_iff length_gctr
  by (simp add: eq_commute)

lemma decrypt_of_encrypt_difference:
  assumes "length key \<in> {16, 24, 32}"
      and "length (TextEncoder_encode C1) = length (TextEncoder_encode C2)"
  shows "decrypt_of_encrypt True P key C1 C2 random12 random16 =
     (if ghash (aes_block key 0)
           (pad16 (xor_bytes (TextEncoder_encode C1) (TextEncoder_encode C2))
              @ replicate (length (pad16 (TextEncoder_encode P)) + 16) 0) = 0
      then Inr (TextDecoder_decode (TextEncoder_encode P))
      else Inl (OtherError ''Failed to decrypt message''))"
proof -
  have l: "length (pad16 (gctr (aes_block key) (inc32 (gcm_j0 (aes_block key 0) random12))
                         (TextEncoder_encode P)))
      = length (pad16 (TextEncoder_encode P))"
    by (simp add: length_pad16 length_gctr)
  have len: "length (TextEncoder_encode P)
      = length (gctr (aes_block key) (inc32 (gcm_j0 (aes_block key 0) random12))
                  (TextEncoder_encode P))"
    by (simp add: length_gctr)
  show ?thesis
    unfolding decrypt_of_encrypt_hash [OF assms(1)]
    by (subst len, subst len, subst ghash_eq_difference [OF assms(2)]) (simp add: l)
qed

text \<open>
  C1, as the code has it. On an initialised manager, with an AES key of 16, 24 or 32
  bytes, for every context identifier and every plaintext that has no unpaired surrogate
  and does not begin with \<open>U+FEFF\<close>, decrypting the envelope of the plaintext under the
  same key and context returns exactly the plaintext, whatever the random nonce and salt.
\<close>

theorem message_roundtrip:
  assumes "length key \<in> {16, 24, 32}"
      and "well_formed P"
      and "P = [] \<or> hd P \<noteq> 0xFEFF"
  shows "decrypt_of_encrypt True P key C C random12 random16 = Inr P"
  by (simp add: decrypt_of_encrypt_tag [OF assms(1)] text_roundtrip [OF assms(2) assms(3)])

text \<open>
  The claim as stated fails on a plaintext that begins with \<open>U+FEFF\<close>: the decoder drops
  that first code point, and the three-unit string \<open>U+FEFF\<close>, \<open>h\<close>, \<open>i\<close> comes back as the
  two units \<open>h\<close>, \<open>i\<close>.
\<close>

lemma decode_bom_hi: "TextDecoder_decode (TextEncoder_encode [0xFEFF, 0x68, 0x69]) = [0x68, 0x69]"
  by (simp add: decode_encode_scalars is_lead_surrogate_def is_trail_surrogate_def
      strip_bom_def utf16_units_def)

theorem message_roundtrip_counterexample:
  "decrypt_of_encrypt True [0xFEFF, 0x68, 0x69] (replicate 32 0) [0x63] [0x63]
     (replicate 12 0) (replicate 16 0) = Inr [0x68, 0x69]"
  by (simp add: decrypt_of_encrypt_tag decode_bom_hi)

text \<open>An instance: the text \<open>hi\<close> followed by a surrogate pair, under a 32-byte key.\<close>

theorem message_roundtrip_witness:
  "decrypt_of_encrypt True [0x68, 0x69, 0xD83D, 0xDE00] (replicate 32 0) [0x63] [0x63]
     (replicate 12 0) (replicate 16 0) = Inr [0x68, 0x69, 0xD83D, 0xDE00]"
  by (rule message_roundtrip)
     (simp_all add: is_lead_surrogate_def is_trail_surrogate_def)

text \<open>
  C2, as the code has it. Decrypting under context \<open>C2\<close> the envelope made under context
  \<open>C1\<close> either throws \<^verbatim>\<open>Failed to decrypt message\<close> or returns the whole plaintext (as
  \<^verbatim>\<open>TextDecoder\<close> reads it), and nothing else. It returns exactly when the hash of the
  associated data, the ciphertext and their lengths, under the key's hash subkey, is the
  same for the UTF-8 encodings of the two contexts. For encodings of one length that is
  exactly when the hash of their difference is zero: the XOR of the two encodings,
  padded, followed by zero blocks in place of the ciphertext and the lengths. So whether
  the call throws is decided by the key and the two contexts, and by the message and
  the nonce only through the number of blocks of the message.
\<close>

theorem message_context_binding:
  assumes "length key \<in> {16, 24, 32}"
  shows "decrypt_of_encrypt True P key C1 C2 random12 random16 =
     (if ghash (aes_block key 0)
           (pad16 (TextEncoder_encode C1)
              @ pad16 (gctr (aes_block key) (inc32 (gcm_j0 (aes_block key 0) random12))
                         (TextEncoder_encode P))
              @ len64 (length (TextEncoder_encode C1)) @ len64 (length (TextEncoder_encode P)))
         = ghash (aes_block key 0)
           (pad16 (TextEncoder_encode C2)
              @ pad16 (gctr (aes_block key) (inc32 (gcm_j0 (aes_block key 0) random12))
                         (TextEncoder_encode P))
              @ len64 (length (TextEncoder_encode C2)) @ len64 (length (TextEncoder_encode P)))
      then Inr (TextDecoder_decode (TextEncoder_encode P))
      else Inl (OtherError ''Failed to decrypt message''))
   \<and> (length (TextEncoder_encode C1) = length (TextEncoder_encode C2) \<longrightarrow>
        decrypt_of_encrypt True P key C1 C2 random12 random16 =
          (if ghash (aes_block key 0)
                (pad16 (xor_bytes (TextEncoder_encode C1) (TextEncoder_encode C2))
                   @ replicate (length (pad16 (TextEncoder_encode P)) + 16) 0) = 0
           then Inr (TextDecoder_decode (TextEncoder_encode P))
           else Inl (OtherError ''Failed to decrypt message'')))"
proof (intro conjI impI)
  show "decrypt_of_encrypt True P key C1 C2 random12 random16 =
     (if ghash (aes_block key 0)
           (pad16 (TextEncoder_encode C1)
              @ pad16 (gctr (aes_block key) (inc32 (gcm_j0 (aes_block key 0) random12))
                         (TextEncoder_encode P))
              @ len64 (length (TextEncoder_encode C1)) @ len64 (length (TextEncoder_encode P)))
         = ghash (aes_block key 0)
           (pad16 (TextEncoder_encode C2)
              @ pad16 (gctr (aes_block key) (inc32 (gcm_j0 (aes_block key 0) random12))
                         (TextEncoder_encode P))
              @ len64 (length (TextEncoder_encode C2)) @ len64 (length (TextEncoder_encode P)))
      then Inr (TextDecoder_decode (TextEncoder_encode P))
      else Inl (OtherError ''Failed to decrypt message''))"
    by (rule decrypt_of_encrypt_hash [OF assms])
next
  assume "length (TextEncoder_encode C1) = length (TextEncoder_encode C2)"
  then show "decrypt_of_encrypt True P key C1 C2 random12 random16 =
          (if ghash (aes_block key 0)
                (pad16 (xor_bytes (TextEncoder_encode C1) (TextEncoder_encode C2))
                   @ replicate (length (pad16 (TextEncoder_encode P)) + 16) 0) = 0
           then Inr (TextDecoder_decode (TextEncoder_encode P))
           else Inl (OtherError ''Failed to decrypt message''))"
    by (rule decrypt_of_encrypt_difference [OF assms])
qed

text \<open>
  The claim as stated fails in two ways. Two distinct identifiers can have the same
  UTF-8 encoding: an unpaired lead surrogate and an unpaired trail surrogate are both
  encoded as \<open>U+FFFD\<close>, so the associated data agree and the message decrypts. And two
  identifiers with different encodings can have the same hash: under the 32-byte key
  \<open>00 01 ... 1f\<close> the two identifiers of 32 letters below give the same tag, and the
  message encrypted under the first decrypts under the second.
\<close>

lemma encode_lone_surrogates: "TextEncoder_encode [0xD800] = TextEncoder_encode [0xDC00]"
  by (simp add: TextEncoder_encode_def is_lead_surrogate_def is_trail_surrogate_def)

lemma decode_hi: "TextDecoder_decode (TextEncoder_encode [0x68, 0x69]) = [0x68, 0x69]"
  by (rule text_roundtrip) (simp_all add: is_lead_surrogate_def is_trail_surrogate_def)

lemma decode_hi_bytes: "TextDecoder_decode [0x68, 0x69] = [0x68, 0x69]"
  using decode_hi by (simp add: encode_samples)

lemma sample_key_length: "length sample_key \<in> {16, 24, 32}"
  by (simp add: sample_key_def)

theorem message_context_binding_counterexample:
  "decrypt_of_encrypt True [0x68, 0x69] (replicate 32 0) [0xD800] [0xDC00]
     (replicate 12 0) (replicate 16 0) = Inr [0x68, 0x69]
   \<and> [0xD800] \<noteq> [0xDC00 :: 16 word]
   \<and> decrypt_of_encrypt True [0x68, 0x69] sample_key
       (js_of_ascii ''XGYBXLUXTOPTTMKHFMHXOUULTOUCDROF'') (js_of_ascii ''JYMOFVMUFTRVCGCARTRBZKXKZXWUVTNA'')
       (replicate 12 0) (replicate 16 0) = Inr [0x68, 0x69]
   \<and> TextEncoder_encode (js_of_ascii ''XGYBXLUXTOPTTMKHFMHXOUULTOUCDROF'')
       \<noteq> TextEncoder_encode (js_of_ascii ''JYMOFVMUFTRVCGCARTRBZKXKZXWUVTNA'')"
proof -
  have surrogates: "decrypt_of_encrypt True [0x68, 0x69] (replicate 32 0) [0xD800] [0xDC00]
     (replicate 12 0) (replicate 16 0) = Inr [0x68, 0x69]"
    by (simp add: decrypt_of_encrypt_tag encode_lone_surrogates decode_hi)
  have l: "length (TextEncoder_encode (js_of_ascii ''XGYBXLUXTOPTTMKHFMHXOUULTOUCDROF''))
      = length (TextEncoder_encode (js_of_ascii ''JYMOFVMUFTRVCGCARTRBZKXKZXWUVTNA''))"
    by (simp add: encode_samples)
  have letters: "decrypt_of_encrypt True [0x68, 0x69] sample_key
       (js_of_ascii ''XGYBXLUXTOPTTMKHFMHXOUULTOUCDROF'') (js_of_ascii ''JYMOFVMUFTRVCGCARTRBZKXKZXWUVTNA'')
       (replicate 12 0) (replicate 16 0) = Inr [0x68, 0x69]"
    unfolding decrypt_of_encrypt_difference [OF sample_key_length l] encode_samples
      sample_difference_zero
    by (simp add: decode_hi_bytes)
  have different: "TextEncoder_encode (js_of_ascii ''XGYBXLUXTOPTTMKHFMHXOUULTOUCDROF'')
       \<noteq> TextEncoder_encode (js_of_ascii ''JYMOFVMUFTRVCGCARTRBZKXKZXWUVTNA'')"
    by (simp add: encode_samples)
  from surrogates letters different show ?thesis by simp
qed

text \<open>
  Two instances. Under the 32-byte key \<open>00 01 ... 1f\<close> the message \<open>hi\<close> encrypted under
  the context \<open>a\<close> does not decrypt under the context \<open>b\<close>: the hash of their difference
  is not zero. Under the all-zero 32-byte key, the contexts \<open>U+D800 A\<close> and \<open>U+DC00 A\<close>
  have the same encoding and the message decrypts.
\<close>

theorem message_context_binding_witness:
  "decrypt_of_encrypt True [0x68, 0x69] sample_key [0x61] [0x62] (replicate 12 0) (replicate 16 0)
     = Inl (OtherError ''Failed to decrypt message'')
   \<and> decrypt_of_encrypt True [0x68, 0x69] (replicate 32 0) [0xD800, 0x41] [0xDC00, 0x41]
       (replicate 12 0) (replicate 16 0) = Inr [0x68, 0x69]"
proof -
  have l: "length (TextEncoder_encode [0x61]) = length (TextEncoder_encode [0x62])"
    by (simp add: encode_samples)
  note ab = message_context_binding [OF sample_key_length, of "[0x68, 0x69]" "[0x61]" "[0x62]"
      "replicate 12 0" "replicate 16 0", THEN conjunct2, THEN mp, OF l]
  have other: "decrypt_of_encrypt True [0x68, 0x69] sample_key [0x61] [0x62] (replicate 12 0)
      (replicate 16 0) = Inl (OtherError ''Failed to decrypt message'')"
    unfolding ab encode_samples sample_difference_nonzero by simp
  have e: "TextEncoder_encode [0xD800, 0x41] = TextEncoder_encode [0xDC00, 0x41]"
    by (simp add: TextEncoder_encode_def is_lead_surrogate_def is_trail_surrogate_def)
  have k: "length (replicate 32 (0 :: 8 word)) \<in> {16, 24, 32}" by simp
  have same: "decrypt_of_encrypt True [0x68, 0x69] (replicate 32 0) [0xD800, 0x41] [0xDC00, 0x41]
     (replicate 12 0) (replicate 16 0) = Inr [0x68, 0x69]"
    using message_context_binding [OF k, of "[0x68, 0x69]" "[0xD800, 0x41]" "[0xDC00, 0x41]"
        "replicate 12 0" "replicate 16 0", THEN conjunct1]
    by (simp add: e decode_hi)
  from other same show ?thesis by simp
qed

section \<open>Signature verification: properties\<close>

lemma verifySignature_cases:
  "verifySignature importKey verify data sig publicKey =
     Inr (verifySignature_body importKey verify data sig publicKey = Inr True)"
  by (cases "verifySignature_body importKey verify data sig publicKey")
     (auto simp: verifySignature_def)

text \<open>
  C8. Whatever the data, the signature, the public key and the behaviour of the two
  platform calls, the promise of \<^verbatim>\<open>verifySignature\<close> is fulfilled with a boolean and
  never rejected. The boolean is \<^verbatim>\<open>false\<close> when the signature is not valid base64, and
  when a serialized public key is not valid base64 or is refused by \<^verbatim>\<open>importKey\<close>;
  it is \<^verbatim>\<open>true\<close> only when the platform's \<^verbatim>\<open>verify\<close> has answered \<^verbatim>\<open>true\<close>.
\<close>

theorem verifySignature_never_throws:
  "(\<exists>b. verifySignature importKey verify data sig publicKey = Inr b)
   \<and> ((\<exists>e. base64ToArrayBuffer sig = Inl e)
        \<longrightarrow> verifySignature importKey verify data sig publicKey = Inr False)
   \<and> ((\<exists>s. publicKey = SerializedKey s
            \<and> ((\<exists>e. base64ToArrayBuffer s = Inl e)
                 \<or> (\<exists>spki e. base64ToArrayBuffer s = Inr spki \<and> importKey spki = Inl e)))
        \<longrightarrow> verifySignature importKey verify data sig publicKey = Inr False)
   \<and> (verifySignature importKey verify data sig publicKey = Inr True
        \<longrightarrow> (\<exists>k signatureArray dataArray. verify k signatureArray dataArray = Inr True))"
  by (auto simp: verifySignature_cases verifySignature_body_def Let_def
      split: sum.splits public_key_arg.splits)

text \<open>
  Instances, with an \<open>importKey\<close> that always rejects and a \<open>verify\<close> that always
  answers \<^verbatim>\<open>true\<close>: a malformed signature, a serialized key that is refused, and a
  well-formed call with a key handle.
\<close>

theorem verifySignature_never_throws_witness:
  "verifySignature (\<lambda>spki. Inl (OtherError ''SyntaxError'') :: js_error + unit)
      (\<lambda>k s d. Inr True) (StringData (js_of_ascii ''data'')) ''not base64!'' (CryptoKey ())
     = Inr False
   \<and> verifySignature (\<lambda>spki. Inl (OtherError ''SyntaxError'') :: js_error + unit)
      (\<lambda>k s d. Inr True) (StringData (js_of_ascii ''data'')) ''c2ln'' (SerializedKey ''AAAA'')
     = Inr False
   \<and> verifySignature (\<lambda>spki. Inl (OtherError ''SyntaxError'') :: js_error + unit)
      (\<lambda>k s d. Inr True) (StringData (js_of_ascii ''data'')) ''c2ln'' (CryptoKey ())
     = Inr True"
proof -
  let ?imp = "\<lambda>spki :: 8 word list. Inl (OtherError ''SyntaxError'') :: js_error + unit"
  let ?ver = "\<lambda>(k :: unit) (s :: 8 word list) (d :: 8 word list). Inr True :: js_error + bool"
  have bad: "\<exists>e. base64ToArrayBuffer ''not base64!'' = Inl e"
    by (simp add: base64ToArrayBuffer_def atob_def strip_padding_def is_ascii_whitespace_def
        b64_value_def Let_def)
  have good: "base64ToArrayBuffer ''AAAA'' = Inr [0, 0, 0]"
    by (simp add: base64ToArrayBuffer_def atob_def strip_padding_def is_ascii_whitespace_def
        b64_value_def Let_def)
  have sig: "base64ToArrayBuffer ''c2ln'' = Inr [0x73, 0x69, 0x67]"
    by (simp add: base64ToArrayBuffer_def atob_def strip_padding_def is_ascii_whitespace_def
        b64_value_def Let_def)
  have key: "\<exists>s. SerializedKey ''AAAA'' = SerializedKey s
            \<and> ((\<exists>e. base64ToArrayBuffer s = Inl e)
                 \<or> (\<exists>spki e. base64ToArrayBuffer s = Inr spki \<and> ?imp spki = Inl e))"
    using good by auto
  have third: "verifySignature ?imp ?ver (StringData (js_of_ascii ''data'')) ''c2ln'' (CryptoKey ())
     = Inr True"
    by (simp add: verifySignature_def verifySignature_body_def sig)
  from verifySignature_never_throws [of ?imp ?ver "StringData (js_of_ascii ''data'')"
         "''not base64!''" "CryptoKey ()"] bad
       verifySignature_never_throws [of ?imp ?ver "StringData (js_of_ascii ''data'')"
         "''c2ln''" "SerializedKey ''AAAA''"] key third
  show ?thesis by blast
qed

section \<open>CAPTCHA tokens: properties\<close>

lemma validate_used:
  "token_used st token \<Longrightarrow> validateCaptcha toLowerCase userInput token now st = (False, st)"
  by (auto simp: token_used_def validateCaptcha_def split: option.splits)

lemma validate_true_marks:
  "validateCaptcha toLowerCase userInput token now st = (True, st') \<Longrightarrow> token_used st' token"
  by (auto simp: token_used_def validateCaptcha_def Let_def split: option.splits if_splits)

lemma validate_keeps_used:
  "token_used st token \<Longrightarrow>
   token_used (snd (validateCaptcha toLowerCase userInput t now st)) token"
  by (auto simp: token_used_def validateCaptcha_def Let_def split: option.splits if_splits)

lemma run_call_keeps_used:
  "token_used st token \<Longrightarrow> \<not> reissues token c \<Longrightarrow> token_used (run_call toLowerCase c st) token"
proof (cases c)
  case (ValidateCaptcha userInput t now)
  assume "token_used st token"
  then show ?thesis using ValidateCaptcha by (simp add: validate_keeps_used)
next
  case (GetCaptcha t chal sol now)
  assume "token_used st token" "\<not> reissues token c"
  then show ?thesis using GetCaptcha by (simp add: token_used_def getCaptcha_store_def)
qed

lemma run_calls_keep_used:
  "token_used st token \<Longrightarrow> \<forall>c\<in>set calls. \<not> reissues token c
   \<Longrightarrow> token_used (run_calls toLowerCase calls st) token"
  unfolding run_calls_def
  by (induction calls arbitrary: st) (simp_all add: run_call_keeps_used)

text \<open>
  C7, as the code has it. Once \<^verbatim>\<open>validateCaptcha\<close> has returned \<^verbatim>\<open>true\<close> for a token, then
  after any run of further calls in which no \<^verbatim>\<open>getCaptcha\<close> response stores the same
  token again, a call of \<^verbatim>\<open>validateCaptcha\<close> with that token returns \<^verbatim>\<open>false\<close> and leaves
  the map as it is, whatever the answer submitted and whatever the time.
\<close>

theorem captcha_single_use:
  assumes "validateCaptcha toLowerCase userInput token now st = (True, st')"
      and "\<forall>c\<in>set calls. \<not> reissues token c"
  shows "validateCaptcha toLowerCase userInput' token now' (run_calls toLowerCase calls st')
           = (False, run_calls toLowerCase calls st')"
  using assms by (intro validate_used run_calls_keep_used validate_true_marks)

text \<open>
  An instance: the token \<open>tok1\<close> with solution \<open>Seven\<close>, issued at time 1000, is validated
  at time 2000 with the answer \<open>SEVEN\<close>; after a wrong answer, another token issued and
  validated, the correct answer \<open>seven\<close> at time 4000, inside the 5 minutes, is refused.
\<close>

lemma sample_first:
  "fst (validateCaptcha ascii_lower (js_of_ascii ''SEVEN'') (js_of_ascii ''tok1'') 2000 sample_tokens)
     = True"
  by (simp add: validateCaptcha_def sample_tokens_def getCaptcha_store_def constantTimeEquals_def
      ascii_lower_def js_of_ascii_def Let_def)

theorem captcha_single_use_witness:
  "fst (validateCaptcha ascii_lower (js_of_ascii ''SEVEN'') (js_of_ascii ''tok1'') 2000 sample_tokens)
     = True
   \<and> fst (validateCaptcha ascii_lower (js_of_ascii ''seven'') (js_of_ascii ''tok1'') 4000
        (run_calls ascii_lower
           [ValidateCaptcha (js_of_ascii ''six'') (js_of_ascii ''tok1'') 2500,
            GetCaptcha (js_of_ascii ''tok2'') (js_of_ascii ''1 + 1'') (js_of_ascii ''two'') 3000,
            ValidateCaptcha (js_of_ascii ''two'') (js_of_ascii ''tok2'') 3500]
           (snd (validateCaptcha ascii_lower (js_of_ascii ''SEVEN'') (js_of_ascii ''tok1'') 2000
                   sample_tokens)))) = False"
proof -
  let ?first = "validateCaptcha ascii_lower (js_of_ascii ''SEVEN'') (js_of_ascii ''tok1'') 2000
                   sample_tokens"
  have f: "?first = (True, snd ?first)"
    using sample_first by (metis prod.collapse)
  have n: "\<forall>c\<in>set [ValidateCaptcha (js_of_ascii ''six'') (js_of_ascii ''tok1'') 2500,
            GetCaptcha (js_of_ascii ''tok2'') (js_of_ascii ''1 + 1'') (js_of_ascii ''two'') 3000,
            ValidateCaptcha (js_of_ascii ''two'') (js_of_ascii ''tok2'') 3500].
          \<not> reissues (js_of_ascii ''tok1'') c"
    by (simp add: js_of_ascii_def)
  from captcha_single_use [OF f n, of "js_of_ascii ''seven''" 4000] sample_first
  show ?thesis by simp
qed

text \<open>
  The claim as stated fails: \<^verbatim>\<open>getCaptcha\<close> stores whatever token the response carries
  with \<^verbatim>\<open>used: false\<close>. When the token \<open>tok1\<close>, validated at time 2000, comes again in a
  response at time 3000, the answer \<open>seven\<close> at time 4000 is accepted a second time.
\<close>

theorem captcha_single_use_counterexample:
  "fst (validateCaptcha ascii_lower (js_of_ascii ''SEVEN'') (js_of_ascii ''tok1'') 2000 sample_tokens)
     = True
   \<and> fst (validateCaptcha ascii_lower (js_of_ascii ''seven'') (js_of_ascii ''tok1'') 4000
        (run_calls ascii_lower
           [GetCaptcha (js_of_ascii ''tok1'') (js_of_ascii ''3 + 4'') (js_of_ascii ''Seven'') 3000]
           (snd (validateCaptcha ascii_lower (js_of_ascii ''SEVEN'') (js_of_ascii ''tok1'') 2000
                   sample_tokens)))) = True"
  by (simp add: validateCaptcha_def sample_tokens_def getCaptcha_store_def constantTimeEquals_def
      ascii_lower_def js_of_ascii_def run_calls_def Let_def)

text \<open>\<^verbatim>\<open>constantTimeEquals\<close> decides equality of the two strings.\<close>

lemma xor_zero_iff: "(a :: 32 word) XOR b = 0 \<longleftrightarrow> a = b"
proof
  assume "a XOR b = 0"
  then have "(a XOR b) XOR b = b" by simp
  then show "a = b" by (simp add: xor.assoc)
next
  assume "a = b"
  then show "a XOR b = 0" by simp
qed

lemma ucast_16_32_inj: "(ucast (x :: 16 word) :: 32 word) = ucast y \<longleftrightarrow> x = y"
proof
  assume "(ucast x :: 32 word) = ucast y"
  then have "(ucast (ucast x :: 32 word) :: 16 word) = ucast (ucast y :: 32 word)" by simp
  then show "x = y" by (simp add: ucast_down_ucast_id is_down)
next
  assume "x = y"
  then show "(ucast x :: 32 word) = ucast y" by simp
qed

lemma or_xor_zero:
  "(r :: 32 word) OR (ucast (x :: 16 word) XOR ucast y) = 0 \<longleftrightarrow> r = 0 \<and> x = y"
  by (simp add: or_eq_0_iff xor_zero_iff ucast_16_32_inj)

lemma foldl_or_zero:
  "length a = length b \<Longrightarrow>
   foldl (\<lambda>result (x, y). result OR (ucast x XOR ucast y)) (r :: 32 word) (zip (a :: js_string) b) = 0
     \<longleftrightarrow> r = 0 \<and> a = b"
proof (induction a arbitrary: b r)
  case Nil
  then show ?case by simp
next
  case (Cons x a)
  then obtain y b' where b: "b = y # b'" by (cases b) auto
  with Cons.prems have l: "length a = length b'" by simp
  show ?case using Cons.IH [OF l] by (auto simp: b or_xor_zero)
qed

lemma constantTimeEquals_iff: "constantTimeEquals a b \<longleftrightarrow> a = b"
  by (auto simp: constantTimeEquals_def foldl_or_zero)

end
